theory Spec2Isabelle
  imports Main "HOL-Library.Word"
begin

section \<open>Key/value pairs and the order check (go/types/kvp.go)\<close>

text \<open>
  A \<open>KVP\<close> is a struct with a key and a value. The key is a \<open>LesserValuable\<close>: an
  interface whose only method used here is \<open>Less\<close>. The method is a parameter
  \<open>lt\<close> of the model (\<open>lt a b\<close> is \<open>a.Less(b)\<close>); nothing is assumed about it,
  not even that it is an order.
\<close>

record ('k, 'v) KVP =
  Key :: 'k
  Val :: 'v

text \<open>
  A \<open>KVPIterator\<close> is an interface with the methods \<open>Next\<close> and \<open>Peek\<close>; \<open>Next\<close>
  returns a pointer to the next pair, or nil, and may change the iterator. An iterator
  is modelled by its state, of any type \<open>'s\<close>, and its method \<open>Next\<close> by a function
  from the state to the pair returned (\<open>None\<close> for nil) and the new state.
\<close>

type_synonym ('s, 'k, 'v) KVPIterator = "'s \<Rightarrow> ('k, 'v) KVP option \<times> 's"

text \<open>
  The \<open>for\<close> loop of \<open>IsInOrder\<close>, with its two variables \<open>prev\<close> and \<open>count\<close>. It
  ends only when the iterator returns nil or a pair out of order, so it is a partial
  function: \<open>None\<close> is the loop that runs forever. \<open>count\<close> is a Go \<open>int\<close>; it counts
  the pairs that were returned, one by one, so it is a \<open>nat\<close> here.
\<close>

partial_function (option) IsInOrder_loop ::
  "('s, 'k, 'v) KVPIterator \<Rightarrow> ('k \<Rightarrow> 'k \<Rightarrow> bool) \<Rightarrow> ('k, 'v) KVP \<Rightarrow> nat \<Rightarrow> 's
     \<Rightarrow> (bool \<times> nat) option" where
  "IsInOrder_loop nxt lt prev count itr =
     (case nxt itr of
        (None, itr') \<Rightarrow> Some (True, count)
      | (Some cur, itr') \<Rightarrow>
          if lt (Key cur) (Key prev) then Some (False, count)
          else IsInOrder_loop nxt lt cur (count + 1) itr')"

definition IsInOrder ::
  "('s, 'k, 'v) KVPIterator \<Rightarrow> ('k \<Rightarrow> 'k \<Rightarrow> bool) \<Rightarrow> 's \<Rightarrow> (bool \<times> nat) option" where
  "IsInOrder nxt lt itr =
     (case nxt itr of
        (None, itr') \<Rightarrow> Some (True, 0)
      | (Some prev, itr') \<Rightarrow> IsInOrder_loop nxt lt prev 1 itr')"

text \<open>
  \<open>yields nxt itr xs\<close>: from the state \<open>itr\<close>, the successive calls of \<open>Next\<close> return
  the pairs \<open>xs\<close>, in this order, and then nil.
\<close>

fun yields :: "('s \<Rightarrow> 'a option \<times> 's) \<Rightarrow> 's \<Rightarrow> 'a list \<Rightarrow> bool" where
  "yields nxt itr [] = (fst (nxt itr) = None)"
| "yields nxt itr (x # xs) = (fst (nxt itr) = Some x \<and> yields nxt (snd (nxt itr)) xs)"

text \<open>
  The pair at position \<open>Suc i\<close> is out of order when its key is less than the key
  yielded immediately before it.
\<close>

definition outOfOrderAt :: "('k \<Rightarrow> 'k \<Rightarrow> bool) \<Rightarrow> ('k, 'v) KVP list \<Rightarrow> nat \<Rightarrow> bool" where
  "outOfOrderAt lt xs i \<longleftrightarrow> Suc i < length xs \<and> lt (Key (xs ! Suc i)) (Key (xs ! i))"

definition yieldsInOrder :: "('k \<Rightarrow> 'k \<Rightarrow> bool) \<Rightarrow> ('k, 'v) KVP list \<Rightarrow> bool" where
  "yieldsInOrder lt xs \<longleftrightarrow> (\<forall>i < length xs. \<not> outOfOrderAt lt xs i)"

text \<open>
  The iterator over a \<open>KVPSlice\<close>: its state is the part of the slice not yet
  returned.
\<close>

definition sliceNext :: "(('k, 'v) KVP list, 'k, 'v) KVPIterator" where
  "sliceNext kvps = (case kvps of [] \<Rightarrow> (None, []) | p # rest \<Rightarrow> (Some p, rest))"

section \<open>Cardinality of a keyless row change (package diff, convertDiff)\<close>

text \<open>
  The values that \<open>convertDiff\<close> looks at: a \<open>types.Tuple\<close> (its decoding is not part
  of the function, so a tuple is an opaque \<open>'t\<close>), a \<open>types.Uint\<close>, which is a
  \<open>uint64\<close>, and every other kind of value.
\<close>

datatype 't Value = Tuple 't | Uint "64 word" | OtherValue

text \<open>
  \<open>types.DiffChangeType\<close> has the three named constants; any other value of the
  underlying integer type reaches the \<open>default\<close> branch of the switch.
\<close>

datatype DiffChangeType =
  DiffChangeAdded | DiffChangeRemoved | DiffChangeModified | DiffChangeUnknown nat

record 't Difference =
  ChangeType :: DiffChangeType
  OldValue :: "'t Value option"
  NewValue :: "'t Value option"
  KeyValue :: "'t Value option"

text \<open>
  The errors of \<open>convertDiff\<close>: one that \<open>Tuple.Get\<close> returned, and the two that it
  builds with \<open>fmt.Errorf\<close>, which carry the key and the change type.
\<close>

datatype 't diffError =
  GetFailed string
| DeltaZero "'t Value"
| UnexpectedDiffChange DiffChangeType

text \<open>
  A failed type assertion (\<open>x.(types.Tuple)\<close>, \<open>v.(types.Uint)\<close>) panics, and so may
  the call of \<open>Get\<close>; so does the method call \<open>df.KeyValue.HumanReadableString()\<close> on
  a nil \<open>KeyValue\<close>.
\<close>

datatype 'a outcome = Returns 'a | Panics

text \<open>
  The block that \<open>convertDiff\<close> has twice, once for \<open>df.OldValue\<close> and once for
  \<open>df.NewValue\<close>: the cardinality stays 0 for a nil value; otherwise the value must
  be a tuple, \<open>Get\<close> is called at \<open>row.KeylessCardinalityValIdx\<close> (the parameter
  \<open>idx\<close>) and its result must be a \<open>Uint\<close>. \<open>Inl\<close> is the error of \<open>Get\<close>.
\<close>

definition readCard ::
  "('t \<Rightarrow> 64 word \<Rightarrow> (string + 't Value option) outcome) \<Rightarrow> 64 word \<Rightarrow> 't Value option
     \<Rightarrow> (string + 64 word) outcome" where
  "readCard Get idx val =
     (case val of
        None \<Rightarrow> Returns (Inr 0)
      | Some (Tuple t) \<Rightarrow>
          (case Get t idx of
             Panics \<Rightarrow> Panics
           | Returns (Inl err) \<Rightarrow> Returns (Inl err)
           | Returns (Inr (Some (Uint c))) \<Rightarrow> Returns (Inr c)
           | Returns (Inr _) \<Rightarrow> Panics)
      | Some _ \<Rightarrow> Panics)"

text \<open>
  The switch on the change type. \<open>delta\<close> is \<open>int64(newCard) - int64(oldCard)\<close>: the
  conversions keep the 64 bits and the subtraction wraps, so \<open>delta\<close> is the word
  \<open>newCard - oldCard\<close>, compared with 0 as a signed number (\<open>sint\<close>); \<open>uint64(delta)\<close>
  is the same word again.
\<close>

definition convertDiff_switch ::
  "'t Difference \<Rightarrow> 64 word \<Rightarrow> 64 word
     \<Rightarrow> ('t Difference \<times> 64 word \<times> 't diffError option) outcome" where
  "convertDiff_switch df oldCard newCard =
     (case ChangeType df of
        DiffChangeRemoved \<Rightarrow> Returns (df, oldCard, None)
      | DiffChangeAdded \<Rightarrow> Returns (df, newCard, None)
      | DiffChangeModified \<Rightarrow>
          (let delta = newCard - oldCard in
           if 0 < sint delta then
             Returns (df\<lparr>ChangeType := DiffChangeAdded, OldValue := None\<rparr>, delta, None)
           else if sint delta < 0 then
             Returns (df\<lparr>ChangeType := DiffChangeRemoved, NewValue := None\<rparr>, delta, None)
           else
             (case KeyValue df of
                None \<Rightarrow> Panics
              | Some key \<Rightarrow> Returns (df, 0, Some (DeltaZero key))))
      | DiffChangeUnknown n \<Rightarrow>
          Returns (df, 0, Some (UnexpectedDiffChange (DiffChangeUnknown n))))"

definition convertDiff ::
  "('t \<Rightarrow> 64 word \<Rightarrow> (string + 't Value option) outcome) \<Rightarrow> 64 word \<Rightarrow> 't Difference
     \<Rightarrow> ('t Difference \<times> 64 word \<times> 't diffError option) outcome" where
  "convertDiff Get idx df =
     (case readCard Get idx (OldValue df) of
        Panics \<Rightarrow> Panics
      | Returns (Inl err) \<Rightarrow> Returns (df, 0, Some (GetFailed err))
      | Returns (Inr oldCard) \<Rightarrow>
          (case readCard Get idx (NewValue df) of
             Panics \<Rightarrow> Panics
           | Returns (Inl err) \<Rightarrow> Returns (df, 0, Some (GetFailed err))
           | Returns (Inr newCard) \<Rightarrow> convertDiff_switch df oldCard newCard))"

section \<open>The file-system table persister (package nbs)\<close>

subsection \<open>Data\<close>

text \<open>
  An \<open>addr\<close> is an array of 20 bytes, a Go \<open>error\<close> is its message, a parsed
  \<open>tableIndex\<close> is opaque. A \<open>chunkSource\<close> is either the empty sentinel
  \<open>emptyChunkSource{}\<close> or the reader of a table file that \<open>newMmapTableReader\<close>
  returns.
\<close>

type_synonym byte = "8 word"
type_synonym addr = "160 word"
type_synonym error = string

datatype tableIndex = TableIndex nat

datatype chunkSource = emptyChunkSource | mmapTableReader addr "32 word"

text \<open>
  The calls that a persist or conjoin operation makes on the file system, on the index
  cache and on the file-handle cache, in the order in which it makes them. A call is
  recorded whether it fails or not.
\<close>

datatype call =
  TempFile
| Copy
| Reader
| CopyN
| Write
| Close
| ParseTableIndex
| LockEntry addr
| Put addr
| UnlockEntry addr
| ShrinkCache
| Rename string string
| OpenTable addr

text \<open>
  What the operations act on: the files of the directory by path, the index cache, and
  the record of the calls made so far.
\<close>

record world =
  files :: "string \<rightharpoonup> byte list"
  cache :: "addr \<rightharpoonup> tableIndex"
  calls :: "call list"

text \<open>
  \<open>fsTablePersister\<close>: the directory, and whether the pointer \<open>indexCache\<close> is
  non-nil. The file-handle cache \<open>fc\<close> is never nil (\<open>newFSTablePersister\<close> panics
  on a nil one).
\<close>

record fsTablePersister =
  dir :: string
  hasIndexCache :: bool

text \<open>
  What \<open>ConjoinAll\<close> sees of a source of the plan: the error of
  \<open>sws.source.reader(ctx)\<close>, nil (\<open>None\<close>) when the reader opens, and what
  \<open>io.CopyN\<close> from that reader into the temp file does: the bytes that reached the
  file and its error. \<open>dataLen\<close> is a \<open>uint64\<close>.
\<close>

record tableSource =
  readerErr :: "error option"
  copyN :: "byte list \<times> error option"

record sourceWithSize =
  source :: tableSource
  dataLen :: "64 word"

text \<open>
  The plan that \<open>planConjoin\<close> returns: \<open>plan.sources.sws\<close>, \<open>plan.mergedIndex\<close> and
  \<open>plan.chunkCount\<close>, a \<open>uint32\<close>.
\<close>

record conjoinPlan =
  plan_sources :: "sourceWithSize list"
  plan_mergedIndex :: "byte list"
  plan_chunkCount :: "32 word"

text \<open>
  What the operating system, and the functions of the package that the two operations
  call, do when called. An operation makes each of these calls at most once, so a field
  is the result of that call:
  \<^item> \<open>tempFile\<close> is the result of \<open>ioutil.TempFile\<close>: an error, or the path of the
    new, empty file;
  \<^item> \<open>copyErr\<close> is the result of \<open>io.Copy\<close> into the temp file and \<open>writeErr\<close> that
    of \<open>temp.Write\<close>: \<open>None\<close> when all bytes were written, \<open>Some (k, err)\<close> for the
    error \<open>err\<close> after \<open>k\<close> bytes reached the file;
  \<^item> \<open>closeErr\<close>, \<open>unlockErr\<close>, \<open>shrinkErr\<close> and \<open>renameErr\<close> are the errors of
    \<open>temp.Close\<close>, \<open>unlockEntry\<close>, \<open>ShrinkCache\<close> and \<open>os.Rename\<close>, \<open>None\<close> for
    nil;
  \<^item> \<open>parseTableIndex\<close>, \<open>addrString\<close> (the method \<open>addr.String\<close>),
    \<open>nameFromSuffixes\<close> (applied to the plan, for
    \<open>nameFromSuffixes(plan.suffixes())\<close>) and \<open>newMmapTableReader\<close> (applied to the
    directory, the name and the chunk count) are functions of their arguments.
\<close>

record env =
  tempFile :: "error + string"
  copyErr :: "(nat \<times> error) option"
  writeErr :: "(nat \<times> error) option"
  closeErr :: "error option"
  parseTableIndex :: "byte list \<Rightarrow> error + tableIndex"
  unlockErr :: "error option"
  shrinkErr :: "error option"
  renameErr :: "error option"
  addrString :: "addr \<Rightarrow> string"
  nameFromSuffixes :: "conjoinPlan \<Rightarrow> addr"
  newMmapTableReader :: "string \<Rightarrow> addr \<Rightarrow> 32 word \<Rightarrow> chunkSource option \<times> error option"

subsection \<open>File system and caches\<close>

definition called :: "call \<Rightarrow> world \<Rightarrow> world" where
  "called c w = w\<lparr>calls := calls w @ [c]\<rparr>"

definition createFile :: "string \<Rightarrow> world \<Rightarrow> world" where
  "createFile path w = w\<lparr>files := (files w)(path \<mapsto> [])\<rparr>"

definition appendFile :: "string \<Rightarrow> byte list \<Rightarrow> world \<Rightarrow> world" where
  "appendFile path bs w =
     w\<lparr>files := (files w)(path \<mapsto> (case files w path of None \<Rightarrow> bs | Some old \<Rightarrow> old @ bs))\<rparr>"

definition filepath_Join :: "string \<Rightarrow> string \<Rightarrow> string" where
  "filepath_Join d name = d @ ''/'' @ name"

text \<open>
  \<open>os.Rename\<close>: on success the file is no longer at the old path and its content is
  at the new one, replacing what was there; on failure no file changes.
\<close>

definition os_Rename :: "env \<Rightarrow> string \<Rightarrow> string \<Rightarrow> world \<Rightarrow> world \<times> error option" where
  "os_Rename e oldpath newpath w =
     (let w1 = called (Rename oldpath newpath) w in
      case renameErr e of
        Some err \<Rightarrow> (w1, Some err)
      | None \<Rightarrow>
          (case files w1 oldpath of
             None \<Rightarrow> (w1, Some ''no such file or directory'')
           | Some content \<Rightarrow>
               (w1\<lparr>files := ((files w1)(oldpath := None))(newpath \<mapsto> content)\<rparr>, None)))"

definition indexCache_put :: "addr \<Rightarrow> tableIndex \<Rightarrow> world \<Rightarrow> world" where
  "indexCache_put name index w = (called (Put name) w)\<lparr>cache := (cache w)(name \<mapsto> index)\<rparr>"

text \<open>
  A deferred function of the closures: it runs when the closure returns, on the values
  \<open>(tempName, ferr)\<close> being returned, and replaces \<open>ferr\<close> by its own error only if
  \<open>ferr\<close> is nil.
\<close>

definition deferClose :: "env \<Rightarrow> world \<times> string \<times> error option \<Rightarrow> world \<times> string \<times> error option" where
  "deferClose e r =
     (case r of (w, tempName, ferr) \<Rightarrow>
        (called Close w, tempName, (if ferr = None then closeErr e else ferr)))"

definition deferUnlock ::
  "env \<Rightarrow> addr \<Rightarrow> world \<times> string \<times> error option \<Rightarrow> world \<times> string \<times> error option" where
  "deferUnlock e name r =
     (case r of (w, tempName, ferr) \<Rightarrow>
        (called (UnlockEntry name) w, tempName, (if ferr = None then unlockErr e else ferr)))"

subsection \<open>Open and Persist\<close>

definition Open ::
  "fsTablePersister \<Rightarrow> env \<Rightarrow> addr \<Rightarrow> 32 word \<Rightarrow> world
     \<Rightarrow> world \<times> chunkSource option \<times> error option" where
  "Open ftp e name chunkCount w =
     (called (OpenTable name) w, newMmapTableReader e (dir ftp) name chunkCount)"

text \<open>
  The closure of \<open>persistTable\<close> that writes the temp file. It returns
  \<open>(tempName, ferr)\<close>. The unlock is deferred after the close, so it runs first.
\<close>

definition persistTable_temp ::
  "fsTablePersister \<Rightarrow> env \<Rightarrow> addr \<Rightarrow> byte list \<Rightarrow> world \<Rightarrow> world \<times> string \<times> error option" where
  "persistTable_temp ftp e name data w =
     (case tempFile e of
        Inl ferr \<Rightarrow> (called TempFile w, [], Some ferr)
      | Inr temp \<Rightarrow>
          deferClose e
            (let w1 = createFile temp (called TempFile w) in
             case copyErr e of
               Some (k, ferr) \<Rightarrow> (appendFile temp (take k data) (called Copy w1), [], Some ferr)
             | None \<Rightarrow>
                 (let w2 = appendFile temp data (called Copy w1) in
                  case parseTableIndex e data of
                    Inl ferr \<Rightarrow> (called ParseTableIndex w2, [], Some ferr)
                  | Inr index \<Rightarrow>
                      (let w3 = called ParseTableIndex w2 in
                       if hasIndexCache ftp then
                         deferUnlock e name
                           (indexCache_put name index (called (LockEntry name) w3), temp, None)
                       else (w3, temp, None)))))"

definition persistTable ::
  "fsTablePersister \<Rightarrow> env \<Rightarrow> addr \<Rightarrow> byte list \<Rightarrow> 32 word \<Rightarrow> world
     \<Rightarrow> world \<times> chunkSource option \<times> error option" where
  "persistTable ftp e name data chunkCount w =
     (if chunkCount = 0 then (w, Some emptyChunkSource, None)
      else
        case persistTable_temp ftp e name data w of
          (w1, tempName, Some err) \<Rightarrow> (w1, None, Some err)
        | (w1, tempName, None) \<Rightarrow>
            (let newName = filepath_Join (dir ftp) (addrString e name);
                 w2 = called ShrinkCache w1
             in case shrinkErr e of
                  Some err \<Rightarrow> (w2, None, Some err)
                | None \<Rightarrow>
                    (case os_Rename e tempName newName w2 of
                       (w3, Some err) \<Rightarrow> (w3, None, Some err)
                     | (w3, None) \<Rightarrow> Open ftp e name chunkCount w3)))"

text \<open>
  \<open>Persist\<close>. \<open>mt.write\<close> is a parameter: applied to the memTable and the haver it
  returns \<open>(name, data, chunkCount, err)\<close>.
\<close>

definition Persist ::
  "fsTablePersister \<Rightarrow> env \<Rightarrow> ('mt \<Rightarrow> 'hv \<Rightarrow> addr \<times> byte list \<times> 32 word \<times> error option)
     \<Rightarrow> 'mt \<Rightarrow> 'hv \<Rightarrow> world \<Rightarrow> world \<times> chunkSource option \<times> error option" where
  "Persist ftp e mt_write mt haver w =
     (case mt_write mt haver of
        (name, data, chunkCount, Some err) \<Rightarrow> (w, Some emptyChunkSource, Some err)
      | (name, data, chunkCount, None) \<Rightarrow> persistTable ftp e name data chunkCount w)"

subsection \<open>ConjoinAll\<close>

text \<open>
  The loop over \<open>plan.sources.sws\<close>. \<open>io.CopyN\<close> returns the number \<open>n\<close> of bytes
  it copied, an \<open>int64\<close>, and an error; \<open>copyN\<close> gives the bytes that reached the temp
  file, and the error. \<open>uint64(n)\<close> is the length of these bytes as a 64-bit word.
\<close>

fun copySources :: "string \<Rightarrow> sourceWithSize list \<Rightarrow> world \<Rightarrow> world \<times> error option" where
  "copySources temp [] w = (w, None)"
| "copySources temp (sws # rest) w =
     (let w1 = called Reader w in
      case readerErr (source sws) of
        Some ferr \<Rightarrow> (w1, Some ferr)
      | None \<Rightarrow>
          (case copyN (source sws) of (bs, ferr) \<Rightarrow>
             (let w2 = appendFile temp bs (called CopyN w1) in
              case ferr of
                Some err \<Rightarrow> (w2, Some err)
              | None \<Rightarrow>
                  if (word_of_nat (length bs) :: 64 word) \<noteq> dataLen sws
                  then (w2, Some ''failed to copy all data'')
                  else copySources temp rest w2)))"

definition ConjoinAll_temp ::
  "fsTablePersister \<Rightarrow> env \<Rightarrow> addr \<Rightarrow> conjoinPlan \<Rightarrow> world \<Rightarrow> world \<times> string \<times> error option" where
  "ConjoinAll_temp ftp e name plan w =
     (case tempFile e of
        Inl ferr \<Rightarrow> (called TempFile w, [], Some ferr)
      | Inr temp \<Rightarrow>
          deferClose e
            (case copySources temp (plan_sources plan) (createFile temp (called TempFile w)) of
               (w1, Some ferr) \<Rightarrow> (w1, [], Some ferr)
             | (w1, None) \<Rightarrow>
                 (case writeErr e of
                    Some (k, ferr) \<Rightarrow>
                      (appendFile temp (take k (plan_mergedIndex plan)) (called Write w1), [], Some ferr)
                  | None \<Rightarrow>
                      (let w2 = appendFile temp (plan_mergedIndex plan) (called Write w1) in
                       case parseTableIndex e (plan_mergedIndex plan) of
                         Inl ferr \<Rightarrow> (called ParseTableIndex w2, [], Some ferr)
                       | Inr index \<Rightarrow>
                           (let w3 = called ParseTableIndex w2 in
                            if hasIndexCache ftp then (indexCache_put name index w3, temp, None)
                            else (w3, temp, None))))))"

text \<open>
  \<open>ConjoinAll\<close>. \<open>planConjoin\<close> is a parameter: applied to the sources it returns
  \<open>(plan, err)\<close>.
\<close>

definition ConjoinAll ::
  "fsTablePersister \<Rightarrow> env \<Rightarrow> ('srcs \<Rightarrow> conjoinPlan \<times> error option) \<Rightarrow> 'srcs \<Rightarrow> world
     \<Rightarrow> world \<times> chunkSource option \<times> error option" where
  "ConjoinAll ftp e planConjoin sources w =
     (case planConjoin sources of
        (plan, Some err) \<Rightarrow> (w, Some emptyChunkSource, Some err)
      | (plan, None) \<Rightarrow>
          if plan_chunkCount plan = 0 then (w, Some emptyChunkSource, None)
          else
            (let name = nameFromSuffixes e plan in
             case ConjoinAll_temp ftp e name plan w of
               (w1, tempName, Some err) \<Rightarrow> (w1, None, Some err)
             | (w1, tempName, None) \<Rightarrow>
                 (case os_Rename e tempName (filepath_Join (dir ftp) (addrString e name)) w1 of
                    (w2, Some err) \<Rightarrow> (w2, None, Some err)
                  | (w2, None) \<Rightarrow> Open ftp e name (plan_chunkCount plan) w2)))"

subsection \<open>Properties of a run\<close>

text \<open>
  A source is copied in full when its reader opens, \<open>io.CopyN\<close> returns no error and
  the number of bytes it reports is the declared \<open>dataLen\<close>.
\<close>

definition copiesAll :: "sourceWithSize \<Rightarrow> bool" where
  "copiesAll sws \<longleftrightarrow>
     readerErr (source sws) = None \<and> snd (copyN (source sws)) = None
     \<and> (word_of_nat (length (fst (copyN (source sws)))) :: 64 word) = dataLen sws"

text \<open>The calls that an operation added to the record.\<close>

definition newCalls :: "world \<Rightarrow> world \<Rightarrow> call list" where
  "newCalls w w' = drop (length (calls w)) (calls w')"

text \<open>
  \<open>putsLocked held cs\<close>: reading the calls \<open>cs\<close> in order, \<open>held\<close> being the names
  locked so far, every \<open>put\<close> of a name happens while that name is locked, and every
  lock is released at the end.
\<close>

fun putsLocked :: "addr set \<Rightarrow> call list \<Rightarrow> bool" where
  "putsLocked held [] = (held = {})"
| "putsLocked held (LockEntry n # cs) = putsLocked (insert n held) cs"
| "putsLocked held (UnlockEntry n # cs) = putsLocked (held - {n}) cs"
| "putsLocked held (Put n # cs) = (n \<in> held \<and> putsLocked held cs)"
| "putsLocked held (c # cs) = putsLocked held cs"

text \<open>
  \<open>shrunkBeforeInstall shrunk cs\<close>: reading the calls \<open>cs\<close> in order, \<open>shrunk\<close>
  telling whether \<open>ShrinkCache\<close> was called so far, every rename and every opening
  of a table comes after a call of \<open>ShrinkCache\<close>.
\<close>

fun shrunkBeforeInstall :: "bool \<Rightarrow> call list \<Rightarrow> bool" where
  "shrunkBeforeInstall shrunk [] = True"
| "shrunkBeforeInstall shrunk (ShrinkCache # cs) = shrunkBeforeInstall True cs"
| "shrunkBeforeInstall shrunk (Rename a b # cs) = (shrunk \<and> shrunkBeforeInstall shrunk cs)"
| "shrunkBeforeInstall shrunk (OpenTable n # cs) = (shrunk \<and> shrunkBeforeInstall shrunk cs)"
| "shrunkBeforeInstall shrunk (c # cs) = shrunkBeforeInstall shrunk cs"

section \<open>MemTable.write\<close>

text \<open>
  A chunk is a byte payload identified by its address; a MemTable holds chunks in the
  order in which they were inserted.
\<close>

type_synonym chunk = "addr \<times> byte list"
type_synonym memTable = "chunk list"

text \<open>
  Modelled from the spec: \<open>memTable.write\<close> is not among the sources (only its call in
  \<open>Persist\<close> is). Section 4.4 of the specification: it serializes all chunks not
  already reported present by the haver into the table's physical layout (data section
  and trailing index), computes the name from the set of written chunk addresses and
  returns the full byte image and the chunk count; section 9: naming from an unordered
  set requires a canonical ordering (sort the chunk addresses). The layout of the
  index and the hash are left open by the specification: they are the parameters
  \<open>index\<close> and \<open>hash\<close>.
\<close>

definition writtenChunks :: "memTable \<Rightarrow> (addr \<Rightarrow> bool) \<Rightarrow> chunk list" where
  "writtenChunks mt haver = sort_key fst (filter (\<lambda>c. \<not> haver (fst c)) mt)"

definition memTable_write ::
  "(addr list \<Rightarrow> addr) \<Rightarrow> (chunk list \<Rightarrow> byte list) \<Rightarrow> memTable \<Rightarrow> (addr \<Rightarrow> bool)
     \<Rightarrow> addr \<times> byte list \<times> 32 word \<times> error option" where
  "memTable_write hash index mt haver =
     (let written = writtenChunks mt haver in
      (hash (map fst written),
       concat (map snd written) @ index written,
       word_of_nat (length written),
       None))"

section \<open>Concrete runs\<close>

text \<open>
  A persister with an index cache, an environment in which every call succeeds,
  variants of it in which one call fails, an empty world, and conjoin plans of one
  source of three bytes.
\<close>

definition ftp0 :: fsTablePersister where
  "ftp0 = \<lparr>dir = ''db'', hasIndexCache = True\<rparr>"

definition addrString0 :: "addr \<Rightarrow> string" where
  "addrString0 a = (if a = 7 then ''seven'' else ''other'')"

definition parseOk :: "byte list \<Rightarrow> error + tableIndex" where
  "parseOk bs = Inr (TableIndex (length bs))"

definition parseCorrupt :: "byte list \<Rightarrow> error + tableIndex" where
  "parseCorrupt bs = Inl ''corrupt index''"

definition name7 :: "conjoinPlan \<Rightarrow> addr" where
  "name7 plan = 7"

definition openOk :: "string \<Rightarrow> addr \<Rightarrow> 32 word \<Rightarrow> chunkSource option \<times> error option" where
  "openOk d name chunkCount = (Some (mmapTableReader name chunkCount), None)"

definition openFails :: "string \<Rightarrow> addr \<Rightarrow> 32 word \<Rightarrow> chunkSource option \<times> error option" where
  "openFails d name chunkCount = (None, Some ''cannot open'')"

definition env0 :: env where
  "env0 = \<lparr>tempFile = Inr ''db/nbs_table_1'', copyErr = None, writeErr = None, closeErr = None,
            parseTableIndex = parseOk, unlockErr = None, shrinkErr = None, renameErr = None,
            addrString = addrString0, nameFromSuffixes = name7, newMmapTableReader = openOk\<rparr>"

definition env_openFails :: env where
  "env_openFails = env0\<lparr>newMmapTableReader := openFails\<rparr>"

definition env_corrupt :: env where
  "env_corrupt = env0\<lparr>parseTableIndex := parseCorrupt\<rparr>"

definition env_corrupt_openFails :: env where
  "env_corrupt_openFails = env_corrupt\<lparr>newMmapTableReader := openFails\<rparr>"

definition world0 :: world where
  "world0 = \<lparr>files = Map.empty, cache = Map.empty, calls = []\<rparr>"

definition write7 :: "byte list \<Rightarrow> unit \<Rightarrow> addr \<times> byte list \<times> 32 word \<times> error option" where
  "write7 mt haver = (7, mt, (if mt = [] then 0 else 1), None)"

definition source3 :: tableSource where
  "source3 = \<lparr>readerErr = None, copyN = ([1, 2, 3], None)\<rparr>"

definition plan3 :: conjoinPlan where
  "plan3 = \<lparr>plan_sources = [\<lparr>source = source3, dataLen = 3\<rparr>], plan_mergedIndex = [9],
             plan_chunkCount = 1\<rparr>"

definition plan5 :: conjoinPlan where
  "plan5 = \<lparr>plan_sources = [\<lparr>source = source3, dataLen = 5\<rparr>], plan_mergedIndex = [9],
             plan_chunkCount = 1\<rparr>"

definition planEmpty :: conjoinPlan where
  "planEmpty = \<lparr>plan_sources = [], plan_mergedIndex = [], plan_chunkCount = 0\<rparr>"

definition planConjoin0 :: "conjoinPlan \<Rightarrow> conjoinPlan \<times> error option" where
  "planConjoin0 plan = (plan, None)"

text \<open>
  Two modified differences of the row with key \<open>Uint 5\<close>; a tuple is represented by
  its cardinality, which \<open>getCard\<close> returns.
\<close>

definition modified31 :: "(64 word) Difference" where
  "modified31 = \<lparr>ChangeType = DiffChangeModified, OldValue = Some (Tuple 3),
                  NewValue = Some (Tuple 1), KeyValue = Some (Uint 5)\<rparr>"

definition modified22 :: "(64 word) Difference" where
  "modified22 = \<lparr>ChangeType = DiffChangeModified, OldValue = Some (Tuple 2),
                  NewValue = Some (Tuple 2), KeyValue = Some (Uint 5)\<rparr>"

definition getCard :: "64 word \<Rightarrow> 64 word \<Rightarrow> (string + (64 word) Value option) outcome" where
  "getCard t idx = Returns (Inr (Some (Uint t)))"

definition hashSum :: "addr list \<Rightarrow> addr" where
  "hashSum as = sum_list as"

definition indexLengths :: "chunk list \<Rightarrow> byte list" where
  "indexLengths cs = map (\<lambda>c. word_of_nat (length (snd c))) cs"

definition haverNone :: "addr \<Rightarrow> bool" where
  "haverNone a = False"

section \<open>The order check\<close>

text \<open>
  One step of the loop, for an iterator that returns nil and for one that returns a
  pair. Then the loop on an iterator that yields \<open>rest\<close> and then nil, by induction on
  \<open>rest\<close> with the variables of the loop generalised: it counts every pair when none
  is out of order, and stops at the first one that is.
\<close>

lemma IsInOrder_loop_nil:
  "fst (nxt itr) = None \<Longrightarrow> IsInOrder_loop nxt lt prev count itr = Some (True, count)"
  by (subst IsInOrder_loop.simps) (cases "nxt itr", simp)

lemma IsInOrder_loop_next:
  "fst (nxt itr) = Some cur \<Longrightarrow>
   IsInOrder_loop nxt lt prev count itr =
     (if lt (Key cur) (Key prev) then Some (False, count)
      else IsInOrder_loop nxt lt cur (count + 1) (snd (nxt itr)))"
  by (subst IsInOrder_loop.simps) (cases "nxt itr", simp)

lemma IsInOrder_loop_ok:
  "yields nxt itr rest \<Longrightarrow>
   \<forall>i. Suc i < length (prev # rest) \<longrightarrow> \<not> lt (Key ((prev # rest) ! Suc i)) (Key ((prev # rest) ! i))
   \<Longrightarrow> IsInOrder_loop nxt lt prev count itr = Some (True, count + length rest)"
proof (induction rest arbitrary: prev count itr)
  case Nil
  then show ?case by (simp add: IsInOrder_loop_nil)
next
  case (Cons cur rest)
  from Cons.prems(1) have nx: "fst (nxt itr) = Some cur"
    and ys: "yields nxt (snd (nxt itr)) rest"
    by simp_all
  from Cons.prems(2) have first: "\<not> lt (Key cur) (Key prev)"
    by (drule_tac x = 0 in spec) simp
  have "\<forall>i. Suc i < length (cur # rest) \<longrightarrow>
          \<not> lt (Key ((cur # rest) ! Suc i)) (Key ((cur # rest) ! i))"
  proof (intro allI impI)
    fix i assume "Suc i < length (cur # rest)"
    with Cons.prems(2) show "\<not> lt (Key ((cur # rest) ! Suc i)) (Key ((cur # rest) ! i))"
      by (drule_tac x = "Suc i" in spec) simp
  qed
  from Cons.IH [OF ys this, of "count + 1"] first show ?case
    by (simp add: IsInOrder_loop_next [of nxt itr cur, OF nx])
qed

lemma IsInOrder_loop_bad:
  "yields nxt itr rest \<Longrightarrow>
   Suc i < length (prev # rest) \<Longrightarrow> lt (Key ((prev # rest) ! Suc i)) (Key ((prev # rest) ! i))
   \<Longrightarrow> \<forall>j < i. \<not> lt (Key ((prev # rest) ! Suc j)) (Key ((prev # rest) ! j))
   \<Longrightarrow> IsInOrder_loop nxt lt prev count itr = Some (False, count + i)"
proof (induction rest arbitrary: prev count i itr)
  case Nil
  then show ?case by simp
next
  case (Cons cur rest)
  from Cons.prems(1) have nx: "fst (nxt itr) = Some cur"
    and ys: "yields nxt (snd (nxt itr)) rest"
    by simp_all
  show ?case
  proof (cases i)
    case 0
    with Cons.prems(3) show ?thesis
      by (simp add: IsInOrder_loop_next [of nxt itr cur, OF nx])
  next
    case (Suc k)
    from Cons.prems(4) Suc have first: "\<not> lt (Key cur) (Key prev)"
      by (drule_tac x = 0 in spec) simp
    have a: "Suc k < length (cur # rest)" using Cons.prems(2) Suc by simp
    have b: "lt (Key ((cur # rest) ! Suc k)) (Key ((cur # rest) ! k))"
      using Cons.prems(3) Suc by simp
    have c: "\<forall>j < k. \<not> lt (Key ((cur # rest) ! Suc j)) (Key ((cur # rest) ! j))"
    proof (intro allI impI)
      fix j assume "j < k"
      with Cons.prems(4) Suc show "\<not> lt (Key ((cur # rest) ! Suc j)) (Key ((cur # rest) ! j))"
        by (drule_tac x = "Suc j" in spec) simp
    qed
    from Cons.IH [OF ys a b c, of "count + 1"] first Suc show ?thesis
      by (simp add: IsInOrder_loop_next [of nxt itr cur, OF nx])
  qed
qed


lemma IsInOrder_ok:
  assumes "yields nxt itr xs" and "yieldsInOrder lt xs"
  shows "IsInOrder nxt lt itr = Some (True, length xs)"
proof (cases xs)
  case Nil
  with assms(1) show ?thesis
    by (cases "nxt itr") (simp add: IsInOrder_def)
next
  case (Cons prev rest)
  with assms(1) have nx: "fst (nxt itr) = Some prev" and ys: "yields nxt (snd (nxt itr)) rest"
    by simp_all
  have "\<forall>i. Suc i < length (prev # rest) \<longrightarrow>
          \<not> lt (Key ((prev # rest) ! Suc i)) (Key ((prev # rest) ! i))"
    using assms(2) Cons by (auto simp: yieldsInOrder_def outOfOrderAt_def)
  from IsInOrder_loop_ok [OF ys this, of 1] Cons nx show ?thesis
    by (cases "nxt itr") (simp add: IsInOrder_def)
qed

lemma IsInOrder_bad:
  assumes "yields nxt itr xs"
    and "outOfOrderAt lt xs i" and "\<forall>j < i. \<not> outOfOrderAt lt xs j"
  shows "IsInOrder nxt lt itr = Some (False, Suc i)"
proof (cases xs)
  case Nil
  with assms(2) show ?thesis by (simp add: outOfOrderAt_def)
next
  case (Cons prev rest)
  with assms(1) have nx: "fst (nxt itr) = Some prev" and ys: "yields nxt (snd (nxt itr)) rest"
    by simp_all
  have a: "Suc i < length (prev # rest)"
    and b: "lt (Key ((prev # rest) ! Suc i)) (Key ((prev # rest) ! i))"
    using assms(2) Cons by (auto simp: outOfOrderAt_def)
  have c: "\<forall>j < i. \<not> lt (Key ((prev # rest) ! Suc j)) (Key ((prev # rest) ! j))"
    using assms(3) a Cons by (auto simp: outOfOrderAt_def)
  from IsInOrder_loop_bad [OF ys a b c, of 1] Cons nx show ?thesis
    by (cases "nxt itr") (simp add: IsInOrder_def)
qed

lemma first_outOfOrder:
  assumes "\<not> yieldsInOrder lt xs"
  obtains m where "outOfOrderAt lt xs m" and "\<forall>j < m. \<not> outOfOrderAt lt xs j"
proof -
  from assms obtain k where k: "outOfOrderAt lt xs k"
    by (auto simp: yieldsInOrder_def)
  define m where "m = (LEAST k. outOfOrderAt lt xs k)"
  have "outOfOrderAt lt xs m" unfolding m_def using k by (rule LeastI)
  moreover have "\<forall>j < m. \<not> outOfOrderAt lt xs j"
    unfolding m_def using not_less_Least by blast
  ultimately show ?thesis using that by blast
qed

lemma yields_sliceNext: "yields sliceNext xs xs"
  by (induction xs) (simp_all add: sliceNext_def)

text \<open>
  C10. Let the iterator yield the pairs \<open>xs\<close> and then nil. \<open>IsInOrder\<close> returns; it
  returns \<open>(true, n)\<close>, \<open>n\<close> the number of pairs yielded, exactly when no yielded key
  is less than the key yielded immediately before it; when the first out-of-order pair
  is the one at position \<open>Suc i\<close>, it returns \<open>(false, Suc i)\<close>, the number of pairs
  consumed before that pair; an iterator that yields nil at once gives \<open>(true, 0)\<close>.
\<close>

theorem IsInOrder_spec:
  assumes "yields nxt itr xs"
  shows "(yieldsInOrder lt xs \<longrightarrow> IsInOrder nxt lt itr = Some (True, length xs))
   \<and> (IsInOrder nxt lt itr = Some (True, n) \<longrightarrow> yieldsInOrder lt xs)
   \<and> (outOfOrderAt lt xs i \<and> (\<forall>j < i. \<not> outOfOrderAt lt xs j)
        \<longrightarrow> IsInOrder nxt lt itr = Some (False, Suc i))
   \<and> (xs = [] \<longrightarrow> IsInOrder nxt lt itr = Some (True, 0))
   \<and> IsInOrder nxt lt itr \<noteq> None"
proof (intro conjI impI)
  show "IsInOrder nxt lt itr = Some (True, 0)" if "xs = []"
    using assms that by (cases "nxt itr") (simp add: IsInOrder_def)
  show "IsInOrder nxt lt itr = Some (True, length xs)" if "yieldsInOrder lt xs"
    using assms that by (rule IsInOrder_ok)
  show "IsInOrder nxt lt itr = Some (False, Suc i)"
    if "outOfOrderAt lt xs i \<and> (\<forall>j < i. \<not> outOfOrderAt lt xs j)"
    using assms that by (simp add: IsInOrder_bad)
  show "yieldsInOrder lt xs" if t: "IsInOrder nxt lt itr = Some (True, n)"
  proof (rule ccontr)
    assume "\<not> yieldsInOrder lt xs"
    then obtain m where "outOfOrderAt lt xs m" and "\<forall>j < m. \<not> outOfOrderAt lt xs j"
      by (rule first_outOfOrder)
    with assms have "IsInOrder nxt lt itr = Some (False, Suc m)" by (rule IsInOrder_bad)
    with t show False by simp
  qed
  show "IsInOrder nxt lt itr \<noteq> None"
  proof (cases "yieldsInOrder lt xs")
    case True
    with assms have "IsInOrder nxt lt itr = Some (True, length xs)" by (rule IsInOrder_ok)
    then show ?thesis by simp
  next
    case False
    then obtain m where "outOfOrderAt lt xs m" and "\<forall>j < m. \<not> outOfOrderAt lt xs j"
      by (rule first_outOfOrder)
    with assms have "IsInOrder nxt lt itr = Some (False, Suc m)" by (rule IsInOrder_bad)
    then show ?thesis by simp
  qed
qed

theorem IsInOrder_spec_witness:
  "IsInOrder sliceNext (<) [\<lparr>Key = 1::nat, Val = ()\<rparr>, \<lparr>Key = 3, Val = ()\<rparr>, \<lparr>Key = 2, Val = ()\<rparr>]
     = Some (False, 2)
   \<and> IsInOrder sliceNext (<) [\<lparr>Key = 1::nat, Val = ()\<rparr>, \<lparr>Key = 2, Val = ()\<rparr>] = Some (True, 2)"
proof -
  let ?bad = "[\<lparr>Key = 1::nat, Val = ()\<rparr>, \<lparr>Key = 3, Val = ()\<rparr>, \<lparr>Key = 2, Val = ()\<rparr>]"
  let ?good = "[\<lparr>Key = 1::nat, Val = ()\<rparr>, \<lparr>Key = 2, Val = ()\<rparr>]"
  have bad: "outOfOrderAt (<) ?bad 1 \<and> (\<forall>j < 1. \<not> outOfOrderAt (<) ?bad j)"
    by (simp add: outOfOrderAt_def)
  have good: "yieldsInOrder (<) ?good"
    by (simp add: yieldsInOrder_def outOfOrderAt_def less_Suc_eq numeral_2_eq_2)
  from IsInOrder_spec [OF yields_sliceNext, of "(<)" ?bad _ 1] bad
  have "IsInOrder sliceNext (<) ?bad = Some (False, Suc 1)"
    by blast
  moreover from IsInOrder_spec [OF yields_sliceNext, of "(<)" ?good] good
  have "IsInOrder sliceNext (<) ?good = Some (True, length ?good)"
    by blast
  ultimately show ?thesis by simp
qed

text \<open>
  The hypothesis that the iterator reaches nil is needed: on an iterator that never
  returns nil and whose keys are never out of order, the loop does not end.
\<close>

lemma IsInOrder_loop_forever:
  assumes "\<forall>s. fst (nxt s) \<noteq> None" and "\<forall>a b. \<not> lt a b"
  shows "IsInOrder_loop nxt lt prev count itr = None"
proof (rule ccontr)
  assume "IsInOrder_loop nxt lt prev count itr \<noteq> None"
  then obtain r where r: "IsInOrder_loop nxt lt prev count itr = Some r" by auto
  have "\<not> ((\<forall>s. fst (nxt s) \<noteq> None) \<and> (\<forall>a b. \<not> lt a b))"
  proof (rule IsInOrder_loop.raw_induct
      [where P = "\<lambda>nxt lt prev count itr y. \<not> ((\<forall>s. fst (nxt s) \<noteq> None) \<and> (\<forall>a b. \<not> lt a b))",
        OF _ r])
    fix loop :: "('a \<Rightarrow> ('b, 'c) KVP option \<times> 'a) \<Rightarrow> ('b \<Rightarrow> 'b \<Rightarrow> bool) \<Rightarrow> ('b, 'c) KVP \<Rightarrow> nat \<Rightarrow> 'a \<Rightarrow> (bool \<times> nat) option"
      and nxt lt prev count itr y
    assume ih: "\<And>nxt lt prev count itr y. loop nxt lt prev count itr = Some y
        \<Longrightarrow> \<not> ((\<forall>s. fst (nxt s) \<noteq> None) \<and> (\<forall>a b. \<not> lt a b))"
      and step: "(case nxt itr of
          (None, itr') \<Rightarrow> Some (True, count)
        | (Some cur, itr') \<Rightarrow>
            if lt (Key cur) (Key prev) then Some (False, count)
            else loop nxt lt cur (count + 1) itr') = Some y"
    show "\<not> ((\<forall>s. fst (nxt s) \<noteq> None) \<and> (\<forall>a b. \<not> lt a b))"
    proof
      assume a: "(\<forall>s. fst (nxt s) \<noteq> None) \<and> (\<forall>a b. \<not> lt a b)"
      then obtain cur itr' where "nxt itr = (Some cur, itr')"
        by (cases "nxt itr") (metis fst_conv not_Some_eq)
      with step a have "loop nxt lt cur (count + 1) itr' = Some y" by simp
      from ih [OF this] a show False by simp
    qed
  qed
  with assms show False by simp
qed


lemma IsInOrder_forever:
  assumes "\<forall>s. fst (nxt s) \<noteq> None" and "\<forall>a b. \<not> lt a b"
  shows "IsInOrder nxt lt itr = None"
proof -
  from assms(1) obtain prev itr' where "nxt itr = (Some prev, itr')"
    by (cases "nxt itr") (metis fst_conv not_Some_eq)
  with IsInOrder_loop_forever [OF assms] show ?thesis
    by (simp add: IsInOrder_def)
qed

section \<open>The cardinality of a change\<close>

text \<open>
  What \<open>convertDiff\<close> returns for a modified difference with a key, in general: the
  removed branch returns the negation of \<open>oldCard - newCard\<close>.
\<close>

lemma convertDiff_modified:
  assumes "ChangeType df = DiffChangeModified"
    and "KeyValue df = Some key"
    and "readCard Get idx (OldValue df) = Returns (Inr oldCard)"
    and "readCard Get idx (NewValue df) = Returns (Inr newCard)"
  shows "convertDiff Get idx df =
     Returns (if 0 < sint (newCard - oldCard)
       then (df\<lparr>ChangeType := DiffChangeAdded, OldValue := None\<rparr>, newCard - oldCard, None)
       else if sint (newCard - oldCard) < 0
       then (df\<lparr>ChangeType := DiffChangeRemoved, NewValue := None\<rparr>, - (oldCard - newCard), None)
       else (df, 0, Some (DeltaZero key)))"
  using assms by (simp add: convertDiff_def convertDiff_switch_def Let_def)

text \<open>
  C7. For a modified difference (of a row with a key) whose old and new cardinalities
  are the same number \<open>c\<close>, \<open>convertDiff\<close> returns the error that carries the key,
  with the difference unchanged and cardinality 0.
\<close>

theorem convertDiff_zero_delta_is_error:
  assumes "ChangeType df = DiffChangeModified"
    and "KeyValue df = Some key"
    and "readCard Get idx (OldValue df) = Returns (Inr c)"
    and "readCard Get idx (NewValue df) = Returns (Inr c)"
  shows "convertDiff Get idx df = Returns (df, 0, Some (DeltaZero key))"
  using assms by (simp add: convertDiff_def convertDiff_switch_def)

theorem convertDiff_zero_delta_witness:
  "ChangeType modified22 = DiffChangeModified
   \<and> KeyValue modified22 = Some (Uint 5)
   \<and> readCard getCard 1 (OldValue modified22) = Returns (Inr 2)
   \<and> readCard getCard 1 (NewValue modified22) = Returns (Inr 2)
   \<and> convertDiff getCard 1 modified22 = Returns (modified22, 0, Some (DeltaZero (Uint 5)))"
  using convertDiff_zero_delta_is_error [of modified22 "Uint 5" getCard 1 2]
  by (simp add: readCard_def modified22_def getCard_def)

text \<open>
  C9 fails on the code. A modified difference with old cardinality 3 and new cardinality
  1 becomes a removed change with \<open>NewValue\<close> cleared, but its cardinality is
  \<open>uint64(delta)\<close> for the negative \<open>delta = -2\<close>, that is \<open>2^64 - 2\<close>, and not
  \<open>oldCard - newCard = 2\<close>.
\<close>

theorem convertDiff_removed_cardinality:
  "convertDiff getCard 1 modified31
   = Returns (modified31\<lparr>ChangeType := DiffChangeRemoved, NewValue := None\<rparr>,
        18446744073709551614, None)
   \<and> (18446744073709551614 :: 64 word) \<noteq> 3 - 1"
  by (simp add: convertDiff_def readCard_def convertDiff_switch_def modified31_def getCard_def)

section \<open>The persister: files and errors\<close>

text \<open>
  The files and the record of calls after each primitive step. Until the rename, an
  operation writes to the temp file only: every other path keeps its content. The
  name that a closure returns without an error is the path that \<open>TempFile\<close> returned.
\<close>

lemma files_called [simp]: "files (called c w) = files w"
  by (simp add: called_def)

lemma calls_called [simp]: "calls (called c w) = calls w @ [c]"
  by (simp add: called_def)

lemma files_createFile [simp]: "files (createFile p w) = (files w)(p \<mapsto> [])"
  by (simp add: createFile_def)

lemma calls_createFile [simp]: "calls (createFile p w) = calls w"
  by (simp add: createFile_def)

lemma files_appendFile_other [simp]: "q \<noteq> p \<Longrightarrow> files (appendFile p bs w) q = files w q"
  by (simp add: appendFile_def)

lemma files_appendFile_same [simp]:
  "files (appendFile p bs w) p = Some (case files w p of None \<Rightarrow> bs | Some old \<Rightarrow> old @ bs)"
  by (simp add: appendFile_def)

lemma calls_appendFile [simp]: "calls (appendFile p bs w) = calls w"
  by (simp add: appendFile_def)

lemma files_indexCache_put [simp]: "files (indexCache_put name index w) = files w"
  by (simp add: indexCache_put_def)

lemma calls_indexCache_put [simp]: "calls (indexCache_put name index w) = calls w @ [Put name]"
  by (simp add: indexCache_put_def)

lemma deferClose_simps [simp]:
  "fst (deferClose e (w, t, ferr)) = called Close w"
  "fst (snd (deferClose e (w, t, ferr))) = t"
  "snd (snd (deferClose e (w, t, ferr))) = (if ferr = None then closeErr e else ferr)"
  by (simp_all add: deferClose_def)

lemma deferUnlock_simps [simp]:
  "fst (deferUnlock e name (w, t, ferr)) = called (UnlockEntry name) w"
  "fst (snd (deferUnlock e name (w, t, ferr))) = t"
  "snd (snd (deferUnlock e name (w, t, ferr))) = (if ferr = None then unlockErr e else ferr)"
  by (simp_all add: deferUnlock_def)

lemma os_Rename_failed: "os_Rename e a b w = (w', Some err) \<Longrightarrow> files w' = files w"
  by (auto simp: os_Rename_def Let_def split: option.splits)

lemma copySources_other:
  "p \<noteq> temp \<Longrightarrow> files (fst (copySources temp srcs w)) p = files w p"
  by (induction srcs arbitrary: w) (auto simp: Let_def split: option.splits prod.splits)

lemma persistTable_temp_other:
  "tempFile e \<noteq> Inr p \<Longrightarrow> files (fst (persistTable_temp ftp e name data w)) p = files w p"
  by (auto simp: persistTable_temp_def Let_def deferClose_def deferUnlock_def split: sum.splits option.splits prod.splits)

lemma persistTable_temp_name:
  "persistTable_temp ftp e name data w = (w1, t, None) \<Longrightarrow> tempFile e = Inr t"
  by (auto simp: persistTable_temp_def Let_def deferClose_def deferUnlock_def split: sum.splits option.splits prod.splits if_splits)

lemma copySources_other_dest:
  "copySources temp srcs w = (w1, r) \<Longrightarrow> p \<noteq> temp \<Longrightarrow> files w1 p = files w p"
  using copySources_other [of p temp srcs w] by simp

lemma ConjoinAll_temp_other:
  assumes "tempFile e \<noteq> Inr p"
  shows "files (fst (ConjoinAll_temp ftp e name plan w)) p = files w p"
proof (cases "tempFile e")
  case (Inl ferr)
  then show ?thesis by (simp add: ConjoinAll_temp_def)
next
  case (Inr temp)
  with assms have ne: "p \<noteq> temp" by auto
  obtain w1 r where cp:
    "copySources temp (plan_sources plan) (createFile temp (called TempFile w)) = (w1, r)"
    by (cases "copySources temp (plan_sources plan) (createFile temp (called TempFile w))") auto
  from copySources_other_dest [OF cp ne] ne have "files w1 p = files w p" by simp
  with Inr cp ne show ?thesis
    by (auto simp: ConjoinAll_temp_def Let_def deferClose_def split: sum.splits option.splits prod.splits)
qed

lemma ConjoinAll_temp_name:
  "ConjoinAll_temp ftp e name plan w = (w1, t, None) \<Longrightarrow> tempFile e = Inr t"
  by (auto simp: ConjoinAll_temp_def Let_def deferClose_def split: sum.splits option.splits prod.splits if_splits)

text \<open>
  Every step appends its call to the record, so the record after a closure is the
  record before it, extended.
\<close>

lemma copySources_calls:
  "\<exists>cs. calls (fst (copySources temp srcs w)) = calls w @ cs \<and> set cs \<subseteq> {Reader, CopyN}"
proof (induction srcs arbitrary: w)
  case Nil
  then show ?case by simp
next
  case (Cons sws srcs)
  let ?w2 = "appendFile temp (fst (copyN (source sws))) (called CopyN (called Reader w))"
  from Cons.IH [of ?w2] obtain cs where
    cs: "calls (fst (copySources temp srcs ?w2)) = calls ?w2 @ cs" "set cs \<subseteq> {Reader, CopyN}"
    by blast
  show ?case
  proof (cases "readerErr (source sws) = None \<and> snd (copyN (source sws)) = None
      \<and> (word_of_nat (length (fst (copyN (source sws)))) :: 64 word) = dataLen sws")
    case True
    with cs have "calls (fst (copySources temp (sws # srcs) w)) = calls w @ (Reader # CopyN # cs)"
      by (auto simp: Let_def split: option.splits prod.splits)
    moreover have "set (Reader # CopyN # cs) \<subseteq> {Reader, CopyN}" using cs(2) by auto
    ultimately show ?thesis by blast
  next
    case False
    then have "calls (fst (copySources temp (sws # srcs) w)) = calls w @ [Reader]
      \<or> calls (fst (copySources temp (sws # srcs) w)) = calls w @ [Reader, CopyN]"
      by (auto simp: Let_def split: option.splits prod.splits)
    then show ?thesis by auto
  qed
qed

lemma persistTable_temp_calls_prefix:
  "\<exists>xs. calls (fst (persistTable_temp ftp e name data w)) = calls w @ xs"
  by (auto simp: persistTable_temp_def Let_def deferClose_def deferUnlock_def
      split: sum.splits option.splits prod.splits)

lemma ConjoinAll_temp_calls_prefix:
  "\<exists>xs. calls (fst (ConjoinAll_temp ftp e name plan w)) = calls w @ xs"
proof (cases "tempFile e")
  case (Inl ferr)
  then show ?thesis by (simp add: ConjoinAll_temp_def)
next
  case (Inr temp)
  let ?w0 = "createFile temp (called TempFile w)"
  obtain w1 r where cp: "copySources temp (plan_sources plan) ?w0 = (w1, r)"
    by (cases "copySources temp (plan_sources plan) ?w0") auto
  from copySources_calls [of temp "plan_sources plan" ?w0] cp obtain cs where
    "calls w1 = calls w @ TempFile # cs"
    by auto
  with Inr cp show ?thesis
    by (auto simp: ConjoinAll_temp_def Let_def deferClose_def split: option.splits sum.splits)
qed

lemma os_Rename_calls:
  "os_Rename e a b w = (w', r) \<Longrightarrow> calls w' = calls w @ [Rename a b]"
  by (auto simp: os_Rename_def Let_def split: option.splits)

text \<open>
  An error that \<open>persistTable\<close> returns comes from the closure, from \<open>ShrinkCache\<close>,
  from the rename or from \<open>Open\<close>. When \<open>Open\<close> was not called, it comes from a step
  that changed no file but the temp file; when \<open>Open\<close> was called, its call is the last
  of the record.
\<close>

lemma persistTable_error:
  assumes "persistTable ftp e name data chunkCount w = (w', cs, Some err)"
    and "OpenTable name \<notin> set (newCalls w w')"
    and "tempFile e \<noteq> Inr p"
  shows "files w' p = files w p"
proof (cases "chunkCount = 0")
  case True
  with assms(1) show ?thesis by (simp add: persistTable_def)
next
  case False
  obtain w1 t ferr where temp: "persistTable_temp ftp e name data w = (w1, t, ferr)"
    by (cases "persistTable_temp ftp e name data w") auto
  have w1: "files w1 p = files w p"
    using persistTable_temp_other [OF assms(3), of ftp name data w] temp by simp
  from persistTable_temp_calls_prefix [of ftp e name data w] temp
  obtain xs where xs: "calls w1 = calls w @ xs" by auto
  show ?thesis
  proof (cases ferr)
    case (Some ferr')
    with assms(1) False temp w1 show ?thesis by (simp add: persistTable_def)
  next
    case None
    show ?thesis
    proof (cases "shrinkErr e")
      case (Some serr)
      with assms(1) False temp None w1 show ?thesis by (auto simp: persistTable_def Let_def)
    next
      case noShrink: None
      obtain w3 rerr where ren:
        "os_Rename e t (filepath_Join (dir ftp) (addrString e name)) (called ShrinkCache w1) = (w3, rerr)"
        by (cases "os_Rename e t (filepath_Join (dir ftp) (addrString e name)) (called ShrinkCache w1)") auto
      show ?thesis
      proof (cases rerr)
        case (Some rerr')
        with ren have "files w3 = files (called ShrinkCache w1)" by (auto dest: os_Rename_failed)
        with assms(1) False temp None noShrink ren Some w1 show ?thesis
          by (auto simp: persistTable_def Let_def)
      next
        case noRen: None
        with assms(1) False temp None noShrink ren have "w' = called (OpenTable name) w3"
          by (auto simp: persistTable_def Let_def Open_def)
        with os_Rename_calls [OF ren] xs have "OpenTable name \<in> set (newCalls w w')"
          by (simp add: newCalls_def)
        with assms(2) show ?thesis by simp
      qed
    qed
  qed
qed

lemma ConjoinAll_error:
  assumes "ConjoinAll ftp e planConjoin sources w = (w', cs, Some err)"
    and "planConjoin sources = (plan, perr)"
    and "OpenTable (nameFromSuffixes e plan) \<notin> set (newCalls w w')"
    and "tempFile e \<noteq> Inr p"
  shows "files w' p = files w p"
proof (cases "perr \<noteq> None \<or> plan_chunkCount plan = 0")
  case True
  with assms(1,2) show ?thesis by (auto simp: ConjoinAll_def split: option.splits)
next
  case False
  then have perr: "perr = None" and cc: "plan_chunkCount plan \<noteq> 0" by auto
  let ?name = "nameFromSuffixes e plan"
  obtain w1 t ferr where temp: "ConjoinAll_temp ftp e ?name plan w = (w1, t, ferr)"
    by (cases "ConjoinAll_temp ftp e ?name plan w") auto
  have w1: "files w1 p = files w p"
    using ConjoinAll_temp_other [OF assms(4), of ftp ?name plan w] temp by simp
  from ConjoinAll_temp_calls_prefix [of ftp e ?name plan w] temp
  obtain xs where xs: "calls w1 = calls w @ xs" by auto
  show ?thesis
  proof (cases ferr)
    case (Some ferr')
    with assms(1,2) perr cc temp w1 show ?thesis by (simp add: ConjoinAll_def Let_def)
  next
    case None
    obtain w2 rerr where ren:
      "os_Rename e t (filepath_Join (dir ftp) (addrString e ?name)) w1 = (w2, rerr)"
      by (cases "os_Rename e t (filepath_Join (dir ftp) (addrString e ?name)) w1") auto
    show ?thesis
    proof (cases rerr)
      case (Some rerr')
      with ren have "files w2 = files w1" by (auto dest: os_Rename_failed)
      with assms(1,2) perr cc temp None ren Some w1 show ?thesis
        by (auto simp: ConjoinAll_def Let_def)
    next
      case noRen: None
      with assms(1,2) perr cc temp None ren have "w' = called (OpenTable ?name) w2"
        by (auto simp: ConjoinAll_def Let_def Open_def)
      with os_Rename_calls [OF ren] xs have "OpenTable ?name \<in> set (newCalls w w')"
        by (simp add: newCalls_def)
      with assms(3) show ?thesis by simp
    qed
  qed
qed

text \<open>
  C1, as amended. When \<open>Persist\<close> or \<open>ConjoinAll\<close> returns an error and the error is not
  that of the final \<open>Open\<close>, that is, the operation did not get as far as calling
  \<open>Open\<close>, the file under the final, content-derived name is what it was before the
  call: no file was created there. The temp file has a name of its own.
\<close>

theorem error_before_open_leaves_final_name:
  "(mt_write mt haver = (name, data, chunkCount, werr)
      \<and> Persist ftp e mt_write mt haver w = (w', cs, Some err)
      \<and> OpenTable name \<notin> set (newCalls w w')
      \<and> tempFile e \<noteq> Inr (filepath_Join (dir ftp) (addrString e name))
    \<longrightarrow> files w' (filepath_Join (dir ftp) (addrString e name))
          = files w (filepath_Join (dir ftp) (addrString e name)))
   \<and> (planConjoin sources = (plan, perr)
      \<and> ConjoinAll ftp e planConjoin sources w = (w'', cs', Some err')
      \<and> OpenTable (nameFromSuffixes e plan) \<notin> set (newCalls w w'')
      \<and> tempFile e \<noteq> Inr (filepath_Join (dir ftp) (addrString e (nameFromSuffixes e plan)))
    \<longrightarrow> files w'' (filepath_Join (dir ftp) (addrString e (nameFromSuffixes e plan)))
          = files w (filepath_Join (dir ftp) (addrString e (nameFromSuffixes e plan))))"
proof (intro conjI impI)
  assume a: "mt_write mt haver = (name, data, chunkCount, werr)
      \<and> Persist ftp e mt_write mt haver w = (w', cs, Some err)
      \<and> OpenTable name \<notin> set (newCalls w w')
      \<and> tempFile e \<noteq> Inr (filepath_Join (dir ftp) (addrString e name))"
  show "files w' (filepath_Join (dir ftp) (addrString e name))
          = files w (filepath_Join (dir ftp) (addrString e name))"
  proof (cases werr)
    case (Some werr')
    with a show ?thesis by (auto simp: Persist_def)
  next
    case None
    with a have "persistTable ftp e name data chunkCount w = (w', cs, Some err)"
      by (auto simp: Persist_def)
    from persistTable_error [OF this] a show ?thesis by blast
  qed
next
  assume b: "planConjoin sources = (plan, perr)
      \<and> ConjoinAll ftp e planConjoin sources w = (w'', cs', Some err')
      \<and> OpenTable (nameFromSuffixes e plan) \<notin> set (newCalls w w'')
      \<and> tempFile e \<noteq> Inr (filepath_Join (dir ftp) (addrString e (nameFromSuffixes e plan)))"
  then show "files w'' (filepath_Join (dir ftp) (addrString e (nameFromSuffixes e plan)))
          = files w (filepath_Join (dir ftp) (addrString e (nameFromSuffixes e plan)))"
    using ConjoinAll_error [of ftp e planConjoin sources w w'' cs' err' plan perr] by blast
qed

text \<open>
  The hypothesis on \<open>Open\<close> is on the call, not on what the call would return: an
  operation that fails before the rename leaves the final name alone also where
  \<open>Open\<close> would have failed. When \<open>Open\<close> would not fail, every error is of this kind.
\<close>

lemma error_and_open_ok_leaves_final_name:
  assumes "persistTable ftp e name data chunkCount w = (w', cs, Some err)"
    and "snd (newMmapTableReader e (dir ftp) name chunkCount) = None"
    and "tempFile e \<noteq> Inr p"
  shows "files w' p = files w p"
proof (cases "OpenTable name \<in> set (newCalls w w')")
  case False
  with assms(1,3) show ?thesis by (simp add: persistTable_error)
next
  case True
  obtain w1 t ferr where temp: "persistTable_temp ftp e name data w = (w1, t, ferr)"
    by (cases "persistTable_temp ftp e name data w") auto
  obtain w3 rerr where ren:
    "os_Rename e t (filepath_Join (dir ftp) (addrString e name)) (called ShrinkCache w1) = (w3, rerr)"
    by (cases "os_Rename e t (filepath_Join (dir ftp) (addrString e name)) (called ShrinkCache w1)") auto
  from assms(1,2) temp ren have "files w' p = files w1 p \<and> (ferr \<noteq> None \<or> shrinkErr e \<noteq> None \<or> rerr \<noteq> None \<or> chunkCount = 0)"
    by (auto simp: persistTable_def Let_def Open_def dest: os_Rename_failed split: option.splits if_splits)
  moreover have "files w1 p = files w p"
    using persistTable_temp_other [OF assms(3), of ftp name data w] temp by simp
  ultimately show ?thesis by simp
qed

text \<open>
  The definitions that are unfolded to run an operation on a concrete input.
\<close>

lemmas run_defs =
  Persist_def persistTable_def persistTable_temp_def ConjoinAll_def ConjoinAll_temp_def
  deferClose_def deferUnlock_def called_def createFile_def appendFile_def indexCache_put_def
  os_Rename_def Open_def filepath_Join_def Let_def

lemmas example_defs =
  ftp0_def env0_def env_openFails_def env_corrupt_def env_corrupt_openFails_def world0_def write7_def addrString0_def
  parseOk_def parseCorrupt_def name7_def openOk_def openFails_def source3_def plan3_def plan5_def
  planEmpty_def planConjoin0_def

text \<open>
  C1 as stated fails when the \<open>Open\<close> that follows the rename returns the error:
  \<open>Persist\<close> returns it, and the table file is under its final name, complete.
\<close>

theorem error_from_open_counterexample:
  "snd (snd (Persist ftp0 env_openFails write7 [1, 2, 3] () world0)) = Some ''cannot open''
   \<and> files world0 ''db/seven'' = None
   \<and> files (fst (Persist ftp0 env_openFails write7 [1, 2, 3] () world0)) ''db/seven'' = Some [1, 2, 3]"
  by (simp add: run_defs example_defs)

theorem error_before_open_witness:
  "snd (snd (Persist ftp0 env_corrupt_openFails write7 [1, 2, 3] () world0)) = Some ''corrupt index''
   \<and> OpenTable 7 \<notin> set (newCalls world0 (fst (Persist ftp0 env_corrupt_openFails write7 [1, 2, 3] () world0)))
   \<and> files (fst (Persist ftp0 env_corrupt_openFails write7 [1, 2, 3] () world0)) ''db/seven'' = None
   \<and> snd (snd (ConjoinAll ftp0 env_corrupt_openFails planConjoin0 plan3 world0)) = Some ''corrupt index''
   \<and> OpenTable 7 \<notin> set (newCalls world0 (fst (ConjoinAll ftp0 env_corrupt_openFails planConjoin0 plan3 world0)))
   \<and> files (fst (ConjoinAll ftp0 env_corrupt_openFails planConjoin0 plan3 world0)) ''db/seven'' = None"
proof -
  let ?e = env_corrupt_openFails
  let ?p = "Persist ftp0 ?e write7 [1, 2, 3] () world0"
  let ?c = "ConjoinAll ftp0 ?e planConjoin0 plan3 world0"
  have p: "snd (snd ?p) = Some ''corrupt index''" and c: "snd (snd ?c) = Some ''corrupt index''"
    by (simp_all add: run_defs example_defs)
  have np: "OpenTable 7 \<notin> set (newCalls world0 (fst ?p))"
    and nc: "OpenTable 7 \<notin> set (newCalls world0 (fst ?c))"
    by (simp_all add: run_defs example_defs newCalls_def)
  have final: "filepath_Join (dir ftp0) (addrString ?e 7) = ''db/seven''"
    "nameFromSuffixes ?e plan3 = 7"
    by (simp_all add: filepath_Join_def example_defs)
  have hp: "write7 [1, 2, 3] () = (7, [1, 2, 3], 1, None)
      \<and> ?p = (fst ?p, fst (snd ?p), Some ''corrupt index'')
      \<and> OpenTable 7 \<notin> set (newCalls world0 (fst ?p))
      \<and> tempFile ?e \<noteq> Inr (filepath_Join (dir ftp0) (addrString ?e 7))"
    using p np by (simp add: example_defs filepath_Join_def prod_eq_iff)
  have hc: "planConjoin0 plan3 = (plan3, None)
      \<and> ?c = (fst ?c, fst (snd ?c), Some ''corrupt index'')
      \<and> OpenTable (nameFromSuffixes ?e plan3) \<notin> set (newCalls world0 (fst ?c))
      \<and> tempFile ?e \<noteq> Inr (filepath_Join (dir ftp0) (addrString ?e (nameFromSuffixes ?e plan3)))"
    using c nc by (simp add: example_defs filepath_Join_def prod_eq_iff)
  have w0: "files world0 ''db/seven'' = None" by (simp add: world0_def)
  from hp hc final w0 p c np nc
    error_before_open_leaves_final_name [where mt_write = write7 and mt = "[1, 2, 3]"
      and haver = "()" and name = 7 and data = "[1, 2, 3]" and chunkCount = 1 and werr = None
      and ftp = ftp0 and e = ?e and w = world0 and w' = "fst ?p" and cs = "fst (snd ?p)"
      and err = "''corrupt index''" and planConjoin = planConjoin0 and sources = plan3
      and plan = plan3 and perr = None and w'' = "fst ?c" and cs' = "fst (snd ?c)"
      and err' = "''corrupt index''"]
  show ?thesis by simp
qed

section \<open>Empty tables\<close>

text \<open>
  C2. When the MemTable serializes to zero chunks, \<open>Persist\<close> returns the empty
  sentinel (with the error of the write, if it had one) and the world is unchanged: no
  file is touched and no call is made. The same holds of \<open>ConjoinAll\<close> when the plan
  covers zero chunks.
\<close>

theorem empty_table_touches_nothing:
  "(mt_write mt haver = (name, data, 0, werr)
      \<longrightarrow> Persist ftp e mt_write mt haver w = (w, Some emptyChunkSource, werr))
   \<and> (planConjoin sources = (plan, perr) \<and> plan_chunkCount plan = 0
      \<longrightarrow> ConjoinAll ftp e planConjoin sources w = (w, Some emptyChunkSource, perr))"
  by (cases werr; cases perr) (simp_all add: Persist_def persistTable_def ConjoinAll_def)

theorem empty_table_witness:
  "write7 [] () = (7, [], 0, None)
   \<and> Persist ftp0 env0 write7 [] () world0 = (world0, Some emptyChunkSource, None)
   \<and> planConjoin0 planEmpty = (planEmpty, None) \<and> plan_chunkCount planEmpty = 0
   \<and> ConjoinAll ftp0 env0 planConjoin0 planEmpty world0 = (world0, Some emptyChunkSource, None)"
  using empty_table_touches_nothing [where mt_write = write7 and mt = "[]" and haver = "()"
      and name = 7 and data = "[]" and werr = None and planConjoin = planConjoin0
      and sources = planEmpty and plan = planEmpty and perr = None and ftp = ftp0 and e = env0
      and w = world0]
  by (simp add: write7_def planConjoin0_def planEmpty_def)

section \<open>Only complete files are installed\<close>

text \<open>
  When the closure returns without an error, the temp file holds the complete image:
  the serialized bytes for \<open>Persist\<close>; for \<open>ConjoinAll\<close> the bytes copied from every
  source, each copied in full, followed by the merged index. So the file under the
  final name is either what it was before the call or the complete image, whatever the
  operation returns.
\<close>

lemma persistTable_temp_content:
  "persistTable_temp ftp e name data w = (w1, t, None) \<Longrightarrow> files w1 t = Some data"
  by (auto simp: persistTable_temp_def Let_def deferClose_def deferUnlock_def
      split: sum.splits option.splits prod.splits if_splits)

lemma os_Rename_done:
  "os_Rename e a b w = (w', None) \<Longrightarrow> files w' b = files w a \<and> (\<forall>p. p \<noteq> a \<and> p \<noteq> b \<longrightarrow> files w' p = files w p)"
  by (auto simp: os_Rename_def Let_def split: option.splits)

lemma persistTable_installs_complete_file:
  assumes "tempFile e \<noteq> Inr (filepath_Join (dir ftp) (addrString e name))"
    and "persistTable ftp e name data chunkCount w = (w', r)"
  shows "files w' (filepath_Join (dir ftp) (addrString e name)) = files w (filepath_Join (dir ftp) (addrString e name))
    \<or> files w' (filepath_Join (dir ftp) (addrString e name)) = Some data"
proof (cases "chunkCount = 0")
  case True
  with assms(2) show ?thesis by (simp add: persistTable_def)
next
  case False
  let ?final = "filepath_Join (dir ftp) (addrString e name)"
  obtain w1 t ferr where temp: "persistTable_temp ftp e name data w = (w1, t, ferr)"
    by (cases "persistTable_temp ftp e name data w") auto
  have w1: "files w1 ?final = files w ?final"
    using persistTable_temp_other [OF assms(1), of ftp name data w] temp by simp
  show ?thesis
  proof (cases ferr)
    case (Some ferr')
    with assms(2) False temp w1 show ?thesis by (auto simp: persistTable_def)
  next
    case None
    with temp have content: "files w1 t = Some data" by (simp add: persistTable_temp_content)
    obtain w3 rerr where ren: "os_Rename e t ?final (called ShrinkCache w1) = (w3, rerr)"
      by (cases "os_Rename e t ?final (called ShrinkCache w1)") auto
    have w3: "files w3 ?final = files w ?final \<or> files w3 ?final = Some data"
    proof (cases rerr)
      case (Some rerr')
      with ren have "files w3 = files (called ShrinkCache w1)" by (auto dest: os_Rename_failed)
      with w1 show ?thesis by simp
    next
      case noRen: None
      with ren content have "files w3 ?final = Some data" by (auto dest: os_Rename_done)
      then show ?thesis ..
    qed
    from assms(2) False temp None ren w1 w3 show ?thesis
      by (auto simp: persistTable_def Let_def Open_def split: option.splits)
  qed
qed

lemma copySources_content:
  "copySources temp srcs w = (w1, None) \<Longrightarrow> files w temp = Some old
   \<Longrightarrow> files w1 temp = Some (old @ concat (map (\<lambda>sws. fst (copyN (source sws))) srcs))
     \<and> (\<forall>sws \<in> set srcs. copiesAll sws)"
proof (induction srcs arbitrary: w old)
  case Nil
  then show ?case by simp
next
  case (Cons sws srcs)
  let ?bs = "fst (copyN (source sws))"
  let ?w2 = "appendFile temp ?bs (called CopyN (called Reader w))"
  from Cons.prems(1) have ok: "copiesAll sws" and rest: "copySources temp srcs ?w2 = (w1, None)"
    by (auto simp: copiesAll_def Let_def split: option.splits prod.splits if_splits)
  have "files ?w2 temp = Some (old @ ?bs)" using Cons.prems(2) by simp
  from Cons.IH [OF rest this] ok show ?case by simp
qed

lemma ConjoinAll_temp_content:
  assumes "ConjoinAll_temp ftp e name plan w = (w1, t, None)"
  shows "files w1 t = Some (concat (map (\<lambda>sws. fst (copyN (source sws))) (plan_sources plan)) @ plan_mergedIndex plan)
     \<and> (\<forall>sws \<in> set (plan_sources plan). copiesAll sws)"
proof -
  from assms have t: "tempFile e = Inr t" by (rule ConjoinAll_temp_name)
  let ?w0 = "createFile t (called TempFile w)"
  obtain w0' r where cp: "copySources t (plan_sources plan) ?w0 = (w0', r)"
    by (cases "copySources t (plan_sources plan) ?w0") auto
  with assms t have r: "r = None"
    by (auto simp: ConjoinAll_temp_def Let_def deferClose_def split: option.splits)
  have "files ?w0 t = Some []" by simp
  from copySources_content [OF cp [unfolded r] this]
  have c: "files w0' t = Some (concat (map (\<lambda>sws. fst (copyN (source sws))) (plan_sources plan)))"
    and ok: "\<forall>sws \<in> set (plan_sources plan). copiesAll sws" by simp_all
  from assms t cp r c have "files w1 t
      = Some (concat (map (\<lambda>sws. fst (copyN (source sws))) (plan_sources plan)) @ plan_mergedIndex plan)"
    by (auto simp: ConjoinAll_temp_def Let_def deferClose_def split: option.splits sum.splits if_splits)
  with ok show ?thesis by simp
qed

lemma ConjoinAll_installs_complete_file:
  assumes "planConjoin sources = (plan, perr)"
    and "tempFile e \<noteq> Inr (filepath_Join (dir ftp) (addrString e (nameFromSuffixes e plan)))"
    and "ConjoinAll ftp e planConjoin sources w = (w', r)"
  shows "files w' (filepath_Join (dir ftp) (addrString e (nameFromSuffixes e plan)))
      = files w (filepath_Join (dir ftp) (addrString e (nameFromSuffixes e plan)))
    \<or> files w' (filepath_Join (dir ftp) (addrString e (nameFromSuffixes e plan)))
        = Some (concat (map (\<lambda>sws. fst (copyN (source sws))) (plan_sources plan)) @ plan_mergedIndex plan)
      \<and> (\<forall>sws \<in> set (plan_sources plan). copiesAll sws)"
proof (cases "perr \<noteq> None \<or> plan_chunkCount plan = 0")
  case True
  with assms(1,3) show ?thesis by (auto simp: ConjoinAll_def split: option.splits)
next
  case False
  then have perr: "perr = None" and cc: "plan_chunkCount plan \<noteq> 0" by auto
  let ?name = "nameFromSuffixes e plan"
  let ?final = "filepath_Join (dir ftp) (addrString e ?name)"
  obtain w1 t ferr where temp: "ConjoinAll_temp ftp e ?name plan w = (w1, t, ferr)"
    by (cases "ConjoinAll_temp ftp e ?name plan w") auto
  have w1: "files w1 ?final = files w ?final"
    using ConjoinAll_temp_other [OF assms(2), of ftp ?name plan w] temp by simp
  show ?thesis
  proof (cases ferr)
    case (Some ferr')
    with assms(1,3) perr cc temp w1 show ?thesis by (auto simp: ConjoinAll_def Let_def)
  next
    case None
    note content = ConjoinAll_temp_content [OF temp [unfolded None]]
    obtain w2 rerr where ren: "os_Rename e t ?final w1 = (w2, rerr)"
      by (cases "os_Rename e t ?final w1") auto
    have w2: "files w2 ?final = files w ?final
      \<or> files w2 ?final = Some (concat (map (\<lambda>sws. fst (copyN (source sws))) (plan_sources plan)) @ plan_mergedIndex plan)"
    proof (cases rerr)
      case (Some rerr')
      with ren have "files w2 = files w1" by (auto dest: os_Rename_failed)
      with w1 show ?thesis by simp
    next
      case noRen: None
      with ren content have "files w2 ?final
        = Some (concat (map (\<lambda>sws. fst (copyN (source sws))) (plan_sources plan)) @ plan_mergedIndex plan)"
        by (auto dest: os_Rename_done)
      then show ?thesis ..
    qed
    from assms(1,3) perr cc temp None ren have "files w' = files w2"
      by (auto simp: ConjoinAll_def Let_def Open_def split: option.splits)
    with w2 content show ?thesis by auto
  qed
qed

section \<open>Short copies\<close>

text \<open>
  A number of bytes below \<open>dataLen\<close> is below \<open>2^64\<close>, so as a \<open>uint64\<close> it differs
  from \<open>dataLen\<close>: the check after \<open>io.CopyN\<close> catches every short copy that
  \<open>io.CopyN\<close> did not report itself.
\<close>

lemma short_length_neq_dataLen:
  assumes "length bs < unat (d :: 64 word)"
  shows "(word_of_nat (length bs) :: 64 word) \<noteq> d"
proof
  assume "(word_of_nat (length bs) :: 64 word) = d"
  then have "unat d = unat (word_of_nat (length bs) :: 64 word)"
    by simp
  also have "\<dots> = length bs mod 2 ^ LENGTH(64)"
    by (simp only: unat_of_nat)
  also have "\<dots> \<le> length bs" by simp
  finally show False using assms by simp
qed

lemma copySources_short:
  "sws \<in> set srcs \<Longrightarrow> length (fst (copyN (source sws))) < unat (dataLen sws)
   \<Longrightarrow> snd (copySources temp srcs w) \<noteq> None"
proof (induction srcs arbitrary: w)
  case Nil
  then show ?case by simp
next
  case (Cons a srcs)
  show ?case
  proof (cases "sws = a")
    case True
    with Cons.prems(2) have "(word_of_nat (length (fst (copyN (source a)))) :: 64 word) \<noteq> dataLen a"
      by (simp add: short_length_neq_dataLen)
    then show ?thesis
      by (auto simp: Let_def split: option.splits prod.splits)
  next
    case False
    with Cons.prems have "sws \<in> set srcs" by simp
    from Cons.IH [OF this Cons.prems(2)] show ?thesis
      by (auto simp: Let_def split: option.splits prod.splits)
  qed
qed

lemma ConjoinAll_temp_short:
  assumes "sws \<in> set (plan_sources plan)"
    and "length (fst (copyN (source sws))) < unat (dataLen sws)"
  shows "snd (snd (ConjoinAll_temp ftp e name plan w)) \<noteq> None"
proof (cases "tempFile e")
  case (Inl ferr)
  then show ?thesis by (simp add: ConjoinAll_temp_def)
next
  case (Inr temp)
  obtain w1 r where cp:
    "copySources temp (plan_sources plan) (createFile temp (called TempFile w)) = (w1, r)"
    by (cases "copySources temp (plan_sources plan) (createFile temp (called TempFile w))") auto
  with copySources_short [OF assms, of temp "createFile temp (called TempFile w)"]
  obtain ferr where "r = Some ferr" by auto
  with Inr cp show ?thesis by (simp add: ConjoinAll_temp_def)
qed

text \<open>
  C5. If some source of the plan transfers fewer bytes than its declared \<open>dataLen\<close>,
  \<open>ConjoinAll\<close>, run on a plan that covers chunks, returns an error and no chunk
  source, and the file under the new table name is what it was before the call.
\<close>

theorem short_copy_is_error:
  assumes "planConjoin sources = (plan, None)"
    and "plan_chunkCount plan \<noteq> 0"
    and "sws \<in> set (plan_sources plan)"
    and "length (fst (copyN (source sws))) < unat (dataLen sws)"
    and "tempFile e \<noteq> Inr (filepath_Join (dir ftp) (addrString e (nameFromSuffixes e plan)))"
    and "ConjoinAll ftp e planConjoin sources w = (w', cs, err)"
  shows "err \<noteq> None \<and> cs = None
     \<and> files w' (filepath_Join (dir ftp) (addrString e (nameFromSuffixes e plan)))
       = files w (filepath_Join (dir ftp) (addrString e (nameFromSuffixes e plan)))"
proof -
  let ?name = "nameFromSuffixes e plan"
  obtain w1 t ferr where temp: "ConjoinAll_temp ftp e ?name plan w = (w1, t, ferr)"
    by (cases "ConjoinAll_temp ftp e ?name plan w") auto
  with ConjoinAll_temp_short [OF assms(3,4), of ftp e ?name w]
  obtain ferr' where ferr: "ferr = Some ferr'" by auto
  from ConjoinAll_temp_other [OF assms(5), of ftp ?name plan w] temp
  have "files w1 (filepath_Join (dir ftp) (addrString e ?name))
      = files w (filepath_Join (dir ftp) (addrString e ?name))" by simp
  with assms(1,2,6) temp ferr show ?thesis
    by (auto simp: ConjoinAll_def Let_def)
qed

theorem short_copy_witness:
  "length (fst (copyN (source \<lparr>source = source3, dataLen = 5\<rparr>))) < unat (dataLen \<lparr>source = source3, dataLen = 5\<rparr>)
   \<and> snd (ConjoinAll ftp0 env0 planConjoin0 plan5 world0) = (None, Some ''failed to copy all data'')
   \<and> files (fst (ConjoinAll ftp0 env0 planConjoin0 plan5 world0)) ''db/seven'' = None"
proof -
  let ?c = "ConjoinAll ftp0 env0 planConjoin0 plan5 world0"
  let ?sws = "\<lparr>source = source3, dataLen = 5\<rparr>"
  have run: "snd ?c = (None, Some ''failed to copy all data'')"
    by (simp add: run_defs example_defs)
  have h1: "planConjoin0 plan5 = (plan5, None)" by (simp add: planConjoin0_def)
  have h2: "plan_chunkCount plan5 \<noteq> 0" by (simp add: plan5_def)
  have h3: "?sws \<in> set (plan_sources plan5)" by (simp add: plan5_def)
  have h4: "length (fst (copyN (source ?sws))) < unat (dataLen ?sws)" by (simp add: source3_def)
  have final: "filepath_Join (dir ftp0) (addrString env0 (nameFromSuffixes env0 plan5)) = ''db/seven''"
    by (simp add: filepath_Join_def example_defs)
  have h5: "tempFile env0 \<noteq> Inr (filepath_Join (dir ftp0) (addrString env0 (nameFromSuffixes env0 plan5)))"
    unfolding final by (simp add: env0_def)
  have h6: "?c = (fst ?c, fst (snd ?c), snd (snd ?c))" by simp
  have w0: "files world0 ''db/seven'' = None" by (simp add: world0_def)
  from short_copy_is_error [OF h1 h2 h3 h4 h5 h6] final w0 run h4 show ?thesis by simp
qed

section \<open>Corrupt indexes\<close>

text \<open>
  When every source is copied in full the loop returns no error. The loop calls the
  reader and \<open>io.CopyN\<close> only, so it does not parse an index.
\<close>

lemma copySources_ok:
  "\<forall>sws \<in> set srcs. copiesAll sws \<Longrightarrow> snd (copySources temp srcs w) = None"
  by (induction srcs arbitrary: w) (auto simp: copiesAll_def Let_def split: option.splits prod.splits)

lemma copySources_no_parse:
  "count_list (calls (fst (copySources temp srcs w))) ParseTableIndex = count_list (calls w) ParseTableIndex"
proof -
  from copySources_calls [of temp srcs w] obtain cs where
    cs: "calls (fst (copySources temp srcs w)) = calls w @ cs" "set cs \<subseteq> {Reader, CopyN}"
    by blast
  then have "ParseTableIndex \<notin> set cs" by auto
  with cs(1) show ?thesis by simp
qed

lemma persistTable_corrupt:
  assumes "chunkCount \<noteq> 0" "tempFile e = Inr temp" "copyErr e = None"
    "parseTableIndex e data = Inl perr" "temp \<noteq> p"
    "persistTable ftp e name data chunkCount w = (w', cs, err)"
  shows "err = Some perr \<and> cs = None
    \<and> count_list (calls w') ParseTableIndex = Suc (count_list (calls w) ParseTableIndex)
    \<and> files w' p = files w p"
  using assms
  by (auto simp: persistTable_def persistTable_temp_def Let_def deferClose_def)

lemma ConjoinAll_corrupt:
  assumes "planConjoin sources = (plan, None)" "plan_chunkCount plan \<noteq> 0" "tempFile e = Inr temp"
    "\<forall>sws \<in> set (plan_sources plan). copiesAll sws" "writeErr e = None"
    "parseTableIndex e (plan_mergedIndex plan) = Inl perr" "temp \<noteq> p"
    "ConjoinAll ftp e planConjoin sources w = (w', cs, err)"
  shows "err = Some perr \<and> cs = None
    \<and> count_list (calls w') ParseTableIndex = Suc (count_list (calls w) ParseTableIndex)
    \<and> files w' p = files w p"
proof -
  let ?w0 = "createFile temp (called TempFile w)"
  obtain w1 r where cp: "copySources temp (plan_sources plan) ?w0 = (w1, r)"
    by (cases "copySources temp (plan_sources plan) ?w0") auto
  from copySources_ok [OF assms(4), of temp ?w0] cp have r: "r = None" by simp
  from copySources_no_parse [of temp "plan_sources plan" ?w0] cp
  have n: "count_list (calls w1) ParseTableIndex = count_list (calls w) ParseTableIndex" by simp
  from assms(7) have "p \<noteq> temp" by auto
  from copySources_other_dest [OF cp this] \<open>p \<noteq> temp\<close> have f: "files w1 p = files w p" by simp
  have "ConjoinAll_temp ftp e (nameFromSuffixes e plan) plan w
      = (called Close (called ParseTableIndex (appendFile temp (plan_mergedIndex plan) (called Write w1))), [], Some perr)"
    using assms(3,5,6) cp r by (simp add: ConjoinAll_temp_def Let_def deferClose_def)
  with assms(1,2,8) n f \<open>p \<noteq> temp\<close> show ?thesis
    by (auto simp: ConjoinAll_def Let_def)
qed

text \<open>
  C6. If \<open>parseTableIndex\<close> fails during \<open>Persist\<close> or \<open>ConjoinAll\<close> (the steps before
  it having succeeded), the operation returns that very error and no chunk source, it
  has called \<open>parseTableIndex\<close> exactly once, and the file under the final table name
  is what it was before the call.
\<close>

theorem corrupt_index_is_returned:
  "(mt_write mt haver = (name, data, chunkCount, None) \<and> chunkCount \<noteq> 0
      \<and> tempFile e = Inr temp \<and> copyErr e = None \<and> parseTableIndex e data = Inl perr
      \<and> temp \<noteq> filepath_Join (dir ftp) (addrString e name)
      \<and> Persist ftp e mt_write mt haver w = (w', cs, err)
    \<longrightarrow> err = Some perr \<and> cs = None
      \<and> count_list (calls w') ParseTableIndex = Suc (count_list (calls w) ParseTableIndex)
      \<and> files w' (filepath_Join (dir ftp) (addrString e name))
        = files w (filepath_Join (dir ftp) (addrString e name)))
   \<and> (planConjoin sources = (plan, None) \<and> plan_chunkCount plan \<noteq> 0
      \<and> tempFile e = Inr temp \<and> (\<forall>sws \<in> set (plan_sources plan). copiesAll sws)
      \<and> writeErr e = None \<and> parseTableIndex e (plan_mergedIndex plan) = Inl perr
      \<and> temp \<noteq> filepath_Join (dir ftp) (addrString e (nameFromSuffixes e plan))
      \<and> ConjoinAll ftp e planConjoin sources w = (w'', cs', err')
    \<longrightarrow> err' = Some perr \<and> cs' = None
      \<and> count_list (calls w'') ParseTableIndex = Suc (count_list (calls w) ParseTableIndex)
      \<and> files w'' (filepath_Join (dir ftp) (addrString e (nameFromSuffixes e plan)))
        = files w (filepath_Join (dir ftp) (addrString e (nameFromSuffixes e plan))))"
proof (intro conjI impI)
  assume a: "mt_write mt haver = (name, data, chunkCount, None) \<and> chunkCount \<noteq> 0
      \<and> tempFile e = Inr temp \<and> copyErr e = None \<and> parseTableIndex e data = Inl perr
      \<and> temp \<noteq> filepath_Join (dir ftp) (addrString e name)
      \<and> Persist ftp e mt_write mt haver w = (w', cs, err)"
  then have "persistTable ftp e name data chunkCount w = (w', cs, err)"
    by (auto simp: Persist_def)
  with a have r: "err = Some perr \<and> cs = None
    \<and> count_list (calls w') ParseTableIndex = Suc (count_list (calls w) ParseTableIndex)
    \<and> files w' (filepath_Join (dir ftp) (addrString e name))
      = files w (filepath_Join (dir ftp) (addrString e name))"
    using persistTable_corrupt [of chunkCount e temp data perr
        "filepath_Join (dir ftp) (addrString e name)" ftp name w w' cs err]
    by blast
  from r show "err = Some perr" by simp
  from r show "cs = None" by simp
  from r show "count_list (calls w') ParseTableIndex = Suc (count_list (calls w) ParseTableIndex)"
    by simp
  from r show "files w' (filepath_Join (dir ftp) (addrString e name))
      = files w (filepath_Join (dir ftp) (addrString e name))" by simp
next
  assume b: "planConjoin sources = (plan, None) \<and> plan_chunkCount plan \<noteq> 0
      \<and> tempFile e = Inr temp \<and> (\<forall>sws \<in> set (plan_sources plan). copiesAll sws)
      \<and> writeErr e = None \<and> parseTableIndex e (plan_mergedIndex plan) = Inl perr
      \<and> temp \<noteq> filepath_Join (dir ftp) (addrString e (nameFromSuffixes e plan))
      \<and> ConjoinAll ftp e planConjoin sources w = (w'', cs', err')"
  then have r: "err' = Some perr \<and> cs' = None
      \<and> count_list (calls w'') ParseTableIndex = Suc (count_list (calls w) ParseTableIndex)
      \<and> files w'' (filepath_Join (dir ftp) (addrString e (nameFromSuffixes e plan)))
        = files w (filepath_Join (dir ftp) (addrString e (nameFromSuffixes e plan)))"
    using ConjoinAll_corrupt [of planConjoin sources plan e temp perr
        "filepath_Join (dir ftp) (addrString e (nameFromSuffixes e plan))" ftp w w'' cs' err']
    by blast
  from r show "err' = Some perr" by simp
  from r show "cs' = None" by simp
  from r show "count_list (calls w'') ParseTableIndex = Suc (count_list (calls w) ParseTableIndex)"
    by simp
  from r show "files w'' (filepath_Join (dir ftp) (addrString e (nameFromSuffixes e plan)))
        = files w (filepath_Join (dir ftp) (addrString e (nameFromSuffixes e plan)))" by simp
qed


theorem corrupt_index_witness:
  "snd (Persist ftp0 env_corrupt write7 [1, 2, 3] () world0) = (None, Some ''corrupt index'')
   \<and> count_list (calls (fst (Persist ftp0 env_corrupt write7 [1, 2, 3] () world0))) ParseTableIndex = 1
   \<and> files (fst (Persist ftp0 env_corrupt write7 [1, 2, 3] () world0)) ''db/seven'' = None
   \<and> snd (ConjoinAll ftp0 env_corrupt planConjoin0 plan3 world0) = (None, Some ''corrupt index'')
   \<and> count_list (calls (fst (ConjoinAll ftp0 env_corrupt planConjoin0 plan3 world0))) ParseTableIndex = 1
   \<and> files (fst (ConjoinAll ftp0 env_corrupt planConjoin0 plan3 world0)) ''db/seven'' = None"
proof -
  let ?p = "Persist ftp0 env_corrupt write7 [1, 2, 3] () world0"
  let ?c = "ConjoinAll ftp0 env_corrupt planConjoin0 plan3 world0"
  have final: "filepath_Join (dir ftp0) (addrString env_corrupt 7) = ''db/seven''"
    "nameFromSuffixes env_corrupt plan3 = 7"
    by (simp_all add: filepath_Join_def example_defs)
  have hp: "write7 [1, 2, 3] () = (7, [1, 2, 3], 1, None) \<and> (1 :: 32 word) \<noteq> 0
      \<and> tempFile env_corrupt = Inr ''db/nbs_table_1'' \<and> copyErr env_corrupt = None
      \<and> parseTableIndex env_corrupt [1, 2, 3] = Inl ''corrupt index''
      \<and> ''db/nbs_table_1'' \<noteq> filepath_Join (dir ftp0) (addrString env_corrupt 7)
      \<and> ?p = (fst ?p, fst (snd ?p), snd (snd ?p))"
    by (simp add: example_defs filepath_Join_def)
  have hc: "planConjoin0 plan3 = (plan3, None) \<and> plan_chunkCount plan3 \<noteq> 0
      \<and> tempFile env_corrupt = Inr ''db/nbs_table_1''
      \<and> (\<forall>sws \<in> set (plan_sources plan3). copiesAll sws)
      \<and> writeErr env_corrupt = None
      \<and> parseTableIndex env_corrupt (plan_mergedIndex plan3) = Inl ''corrupt index''
      \<and> ''db/nbs_table_1'' \<noteq> filepath_Join (dir ftp0) (addrString env_corrupt (nameFromSuffixes env_corrupt plan3))
      \<and> ?c = (fst ?c, fst (snd ?c), snd (snd ?c))"
    by (simp add: example_defs filepath_Join_def copiesAll_def)
  have w0: "files world0 ''db/seven'' = None" "calls world0 = []" by (simp_all add: world0_def)
  from hp hc final w0
    corrupt_index_is_returned [where mt_write = write7 and mt = "[1, 2, 3]" and haver = "()"
      and name = 7 and data = "[1, 2, 3]" and chunkCount = 1 and e = env_corrupt
      and temp = "''db/nbs_table_1''" and perr = "''corrupt index''" and ftp = ftp0 and w = world0
      and w' = "fst ?p" and cs = "fst (snd ?p)" and err = "snd (snd ?p)"
      and planConjoin = planConjoin0 and sources = plan3 and plan = plan3
      and w'' = "fst ?c" and cs' = "fst (snd ?c)" and err' = "snd (snd ?c)"]
  show ?thesis by (simp add: prod_eq_iff)
qed

section \<open>The order of the calls\<close>

text \<open>
  Whatever \<open>Persist\<close> does, each \<open>put\<close> it makes is between the \<open>lockEntry\<close> and the
  \<open>unlockEntry\<close> of the name, and it calls \<open>ShrinkCache\<close> before it renames and
  opens.
\<close>

lemma persistTable_putsLocked:
  "putsLocked {} (newCalls w (fst (persistTable ftp e name data chunkCount w)))"
  by (auto simp: persistTable_def persistTable_temp_def Let_def deferClose_def deferUnlock_def
      os_Rename_def Open_def newCalls_def split: sum.splits option.splits prod.splits)

lemma persistTable_shrunkBeforeInstall:
  "shrunkBeforeInstall False (newCalls w (fst (persistTable ftp e name data chunkCount w)))"
  by (auto simp: persistTable_def persistTable_temp_def Let_def deferClose_def deferUnlock_def
      os_Rename_def Open_def newCalls_def split: sum.splits option.splits prod.splits)

lemma Persist_lock_and_shrink:
  "putsLocked {} (newCalls w (fst (Persist ftp e mt_write mt haver w)))
   \<and> shrunkBeforeInstall False (newCalls w (fst (Persist ftp e mt_write mt haver w)))"
  using persistTable_putsLocked persistTable_shrunkBeforeInstall
  by (auto simp: Persist_def newCalls_def split: prod.splits option.splits)

text \<open>
  C3 fails on the code. A successful \<open>ConjoinAll\<close> of a persister with an index cache
  makes the calls listed: the \<open>put\<close> of the merged index is not between a
  \<open>lockEntry\<close> and an \<open>unlockEntry\<close>. \<open>Persist\<close>, in the same environment, locks.
\<close>

theorem ConjoinAll_puts_without_lock:
  "newCalls world0 (fst (ConjoinAll ftp0 env0 planConjoin0 plan3 world0))
     = [TempFile, Reader, CopyN, Write, ParseTableIndex, Put 7, Close,
        Rename ''db/nbs_table_1'' ''db/seven'', OpenTable 7]
   \<and> \<not> putsLocked {} (newCalls world0 (fst (ConjoinAll ftp0 env0 planConjoin0 plan3 world0)))
   \<and> putsLocked {} (newCalls world0 (fst (Persist ftp0 env0 write7 [1, 2, 3] () world0)))"
  by (simp add: run_defs example_defs newCalls_def)

text \<open>
  C4 fails on the code. A successful \<open>ConjoinAll\<close> renames the temp file to the final
  name and opens the table without any call of \<open>ShrinkCache\<close>. \<open>Persist\<close>, in the
  same environment, shrinks the cache first.
\<close>

theorem ConjoinAll_installs_without_shrink:
  "snd (ConjoinAll ftp0 env0 planConjoin0 plan3 world0) = (Some (mmapTableReader 7 1), None)
   \<and> ShrinkCache \<notin> set (calls (fst (ConjoinAll ftp0 env0 planConjoin0 plan3 world0)))
   \<and> \<not> shrunkBeforeInstall False (newCalls world0 (fst (ConjoinAll ftp0 env0 planConjoin0 plan3 world0)))
   \<and> shrunkBeforeInstall False (newCalls world0 (fst (Persist ftp0 env0 write7 [1, 2, 3] () world0)))"
  by (simp add: run_defs example_defs newCalls_def)

text \<open>
  Whatever \<open>ConjoinAll\<close> does, none of its calls is \<open>ShrinkCache\<close>, \<open>lockEntry\<close> or
  \<open>unlockEntry\<close>.
\<close>

lemma ConjoinAll_temp_calls:
  "\<exists>xs. calls (fst (ConjoinAll_temp ftp e name plan w)) = calls w @ xs
     \<and> (\<forall>c \<in> set xs. c \<noteq> ShrinkCache \<and> (\<forall>n. c \<noteq> LockEntry n \<and> c \<noteq> UnlockEntry n))"
proof (cases "tempFile e")
  case (Inl ferr)
  then show ?thesis by (simp add: ConjoinAll_temp_def)
next
  case (Inr temp)
  let ?w0 = "createFile temp (called TempFile w)"
  obtain w1 r where cp: "copySources temp (plan_sources plan) ?w0 = (w1, r)"
    by (cases "copySources temp (plan_sources plan) ?w0") auto
  from copySources_calls [of temp "plan_sources plan" ?w0] cp obtain cs where
    cs: "calls w1 = calls w @ TempFile # cs" "set cs \<subseteq> {Reader, CopyN}"
    by auto
  from cs(2) have ok: "\<forall>c \<in> set cs. c \<noteq> ShrinkCache \<and> (\<forall>n. c \<noteq> LockEntry n \<and> c \<noteq> UnlockEntry n)"
    by auto
  have "calls (fst (ConjoinAll_temp ftp e name plan w)) = calls w1 @ [Close]
      \<or> calls (fst (ConjoinAll_temp ftp e name plan w)) = calls w1 @ [Write, Close]
      \<or> calls (fst (ConjoinAll_temp ftp e name plan w)) = calls w1 @ [Write, ParseTableIndex, Close]
      \<or> calls (fst (ConjoinAll_temp ftp e name plan w))
          = calls w1 @ [Write, ParseTableIndex, Put name, Close]"
    using Inr cp
    by (auto simp: ConjoinAll_temp_def Let_def deferClose_def split: option.splits sum.splits)
  then obtain ys where ys: "calls (fst (ConjoinAll_temp ftp e name plan w)) = calls w1 @ ys"
    "\<forall>c \<in> set ys. c \<noteq> ShrinkCache \<and> (\<forall>n. c \<noteq> LockEntry n \<and> c \<noteq> UnlockEntry n)"
    by (elim disjE) auto
  from cs(1) ys(1) have "calls (fst (ConjoinAll_temp ftp e name plan w)) = calls w @ (TempFile # cs @ ys)"
    by simp
  moreover from ok ys(2)
  have "\<forall>c \<in> set (TempFile # cs @ ys). c \<noteq> ShrinkCache \<and> (\<forall>n. c \<noteq> LockEntry n \<and> c \<noteq> UnlockEntry n)"
    by auto
  ultimately show ?thesis by blast
qed

lemma ConjoinAll_calls:
  "\<exists>xs. calls (fst (ConjoinAll ftp e planConjoin sources w)) = calls w @ xs
     \<and> (\<forall>c \<in> set xs. c \<noteq> ShrinkCache \<and> (\<forall>n. c \<noteq> LockEntry n \<and> c \<noteq> UnlockEntry n))"
proof -
  obtain plan perr where pl: "planConjoin sources = (plan, perr)"
    by (cases "planConjoin sources") auto
  let ?name = "nameFromSuffixes e plan"
  obtain w1 t ferr where temp: "ConjoinAll_temp ftp e ?name plan w = (w1, t, ferr)"
    by (cases "ConjoinAll_temp ftp e ?name plan w") auto
  from ConjoinAll_temp_calls [of ftp e ?name plan w] temp obtain xs where
    xs: "calls w1 = calls w @ xs"
    "\<forall>c \<in> set xs. c \<noteq> ShrinkCache \<and> (\<forall>n. c \<noteq> LockEntry n \<and> c \<noteq> UnlockEntry n)"
    by auto
  let ?final = "filepath_Join (dir ftp) (addrString e ?name)"
  have "calls (fst (ConjoinAll ftp e planConjoin sources w)) = calls w
    \<or> calls (fst (ConjoinAll ftp e planConjoin sources w)) = calls w @ xs
    \<or> calls (fst (ConjoinAll ftp e planConjoin sources w)) = calls w @ (xs @ [Rename t ?final])
    \<or> calls (fst (ConjoinAll ftp e planConjoin sources w)) = calls w @ (xs @ [Rename t ?final, OpenTable ?name])"
    using pl temp xs(1)
    by (auto simp: ConjoinAll_def Let_def os_Rename_def Open_def split: option.splits)
  with xs(2) show ?thesis
    by (elim disjE) (rule exI [of _ "[]"], simp, rule exI [of _ xs], simp,
        rule exI [of _ "xs @ [Rename t ?final]"], simp,
        rule exI [of _ "xs @ [Rename t ?final, OpenTable ?name]"], simp)
qed

lemma ConjoinAll_never_shrinks:
  "ShrinkCache \<notin> set (newCalls w (fst (ConjoinAll ftp e planConjoin sources w)))"
  using ConjoinAll_calls [of ftp e planConjoin sources w] by (auto simp: newCalls_def)

lemma ConjoinAll_never_locks:
  "LockEntry n \<notin> set (newCalls w (fst (ConjoinAll ftp e planConjoin sources w)))
   \<and> UnlockEntry n \<notin> set (newCalls w (fst (ConjoinAll ftp e planConjoin sources w)))"
  using ConjoinAll_calls [of ftp e planConjoin sources w] by (auto simp: newCalls_def)

section \<open>Determinism of the write\<close>

text \<open>
  The written chunks are sorted by address and the addresses are distinct, so two
  MemTables with the same set of chunks have the same list of written chunks.
\<close>

lemma writtenChunks_eq:
  assumes "distinct (map fst mt1)" and "distinct (map fst mt2)" and "set mt1 = set mt2"
  shows "writtenChunks mt1 haver = writtenChunks mt2 haver"
proof -
  let ?xs = "writtenChunks mt1 haver" and ?ys = "writtenChunks mt2 haver"
  have set_eq: "set ?xs = set ?ys"
    using assms(3) by (simp add: writtenChunks_def)
  have dx: "distinct (map fst ?xs)"
    using distinct_map_filter [OF assms(1)] by (simp add: writtenChunks_def distinct_map)
  have dy: "distinct (map fst ?ys)"
    using distinct_map_filter [OF assms(2)] by (simp add: writtenChunks_def distinct_map)
  have sx: "sorted (map fst ?xs)" and sy: "sorted (map fst ?ys)"
    by (simp_all add: writtenChunks_def)
  have "set (map fst ?xs) = set (map fst ?ys)"
    using set_eq by simp
  with sx dx sy dy have keys: "map fst ?xs = map fst ?ys"
    by (rule sorted_distinct_set_unique)
  from dx set_eq have "inj_on fst (set ?xs \<union> set ?ys)"
    by (simp add: distinct_map)
  with keys show ?thesis
    by (simp add: inj_on_map_eq_map)
qed

text \<open>
  C8. Two MemTables that hold the same set of chunks, each address once, in any
  insertion order, are written to the same name, the same bytes and the same count, and
  so \<open>Persist\<close> does the same on both.
\<close>

theorem write_deterministic:
  assumes "distinct (map fst mt1)" and "distinct (map fst mt2)" and "set mt1 = set mt2"
  shows "memTable_write hash index mt1 haver = memTable_write hash index mt2 haver
    \<and> Persist ftp e (memTable_write hash index) mt1 haver w
      = Persist ftp e (memTable_write hash index) mt2 haver w"
  using writtenChunks_eq [OF assms, of haver]
  by (simp add: memTable_write_def Persist_def)

theorem write_deterministic_witness:
  "memTable_write hashSum indexLengths [(1, [10]), (2, [20, 21])] haverNone = (3, [10, 20, 21, 1, 2], 2, None)
   \<and> memTable_write hashSum indexLengths [(2, [20, 21]), (1, [10])] haverNone = (3, [10, 20, 21, 1, 2], 2, None)"
proof -
  have d1: "distinct (map fst [(1 :: addr, [10 :: byte]), (2, [20, 21])])" by simp
  have d2: "distinct (map fst [(2 :: addr, [20 :: byte, 21]), (1, [10])])" by simp
  have s: "set [(1 :: addr, [10 :: byte]), (2, [20, 21])] = set [(2, [20, 21]), (1, [10])]" by auto
  have v: "memTable_write hashSum indexLengths [(1, [10]), (2, [20, 21])] haverNone = (3, [10, 20, 21, 1, 2], 2, None)"
    by (simp add: memTable_write_def writtenChunks_def hashSum_def indexLengths_def haverNone_def)
  from write_deterministic [OF d1 d2 s, of hashSum indexLengths haverNone] v show ?thesis by simp
qed

end
